theory Spec2Isabelle
  imports Complex_Main "HOL-Library.Multiset" "HOL-Library.Char_ord" "HOL-Library.List_Lexorder"
    "HOL-Library.Monad_Syntax"
begin

section \<open>The record store of the task backend\<close>

text \<open>
  The store (internal/data: tasks.go, the category model, due_date.go) talks to a
  PostgreSQL backend through Go's database/sql. The embedding has two layers:
  \<^item> the backend: the tables as lists of rows, the sequences behind the bigserial
    columns, and one function per SQL statement of the source giving the statement's
    effect on the tables and the rows it returns;
  \<^item> the Go methods, which send one statement, read the reply and write into the
    caller's entity. A pointer argument (\<open>task *Task\<close>) becomes an argument and a
    returned entity.
  Every statement that reaches the backend is appended to \<open>queries\<close>, so that "no
  round trip" and "a single write" are statements about that log.
\<close>

subsection \<open>Data\<close>

text \<open>
  \<open>time.Time\<close> (and so \<open>CustomTime\<close>) is held by its calendar fields in UTC, which is
  what \<open>Format\<close> prints and \<open>Parse\<close> builds.
\<close>

record Time =
  Year :: int
  Month :: nat
  Day :: nat
  Hour :: nat
  Minute :: nat
  Second :: nat
  Nanosecond :: nat

type_synonym CustomTime = Time

record Category =
  ID :: int
  CreatedAt :: CustomTime
  Name :: string
  Description :: string

record Task =
  ID :: int
  CreatedAt :: CustomTime
  Title :: string
  Description :: string
  DueDate :: CustomTime
  Priority :: string
  Status :: string
  Category :: string
  UserID :: int
  Version :: int

datatype error =
  ErrRecordNotFound
  | ErrEditConflict
  | ErrNoRows
  | ErrInvalidTimeFormat
  | Backend string
  | Panic string

subsection \<open>The backend\<close>

datatype stmt =
  Tasks_INSERT
  | Tasks_SELECT int
  | Tasks_UPDATE int int
  | Tasks_DELETE int
  | Tasks_SELECT_ALL string string string int int
  | Categories_INSERT
  | Categories_SELECT int
  | Categories_UPDATE int
  | Categories_DELETE int
  | Categories_SELECT_ALL string string int int

record db =
  tasks :: "Task list"
  tasks_id_seq :: int
  tasks_user_id_seq :: int
  categories :: "Category list"
  categories_id_seq :: int
  queries :: "stmt list"

text \<open>
  What PostgreSQL does and the sources do not fix; each is a parameter of every theorem:
  \<^item> \<open>ts_parse\<close>: the words the text search parser finds in a text;
  \<^item> \<open>collate\<close>: the sort key of a text under the collation of the database (what
    \<open>strxfrm\<close> computes): one text is ordered before another when its key is smaller;
  \<^item> \<open>round_ts0\<close>: how \<open>timestamp(0)\<close> rounds a value that has a fraction of a second.
\<close>

record pg =
  ts_parse :: "string \<Rightarrow> string list"
  collate :: "string \<Rightarrow> int list"
  round_ts0 :: "Time \<Rightarrow> Time"

text \<open>
  How the backend answers one call: in time (after so many milliseconds); in time, but
  with an error when the result set is closed after its row was read (\<open>Breaks\<close>); with
  an error of its own; or not at all.
\<close>

datatype backend = Responds nat | Breaks nat string | Fails string | Hangs

definition bigint_max :: int where
  "bigint_max = 9223372036854775807"

definition integer_max :: int where
  "integer_max = 2147483647"

definition timestamp0 :: "pg \<Rightarrow> Time \<Rightarrow> Time" where
  "timestamp0 p t = (if Nanosecond t = 0 then t else round_ts0 p t)"

definition log_stmt :: "stmt \<Rightarrow> db \<Rightarrow> db" where
  "log_stmt q d = d\<lparr>queries := queries d @ [q]\<rparr>"

text \<open>
  \<open>INSERT INTO tasks (title, description, priority, status, category, due_date)
  VALUES ($1, ..., $6) RETURNING id, created_at, user_id, version\<close> on the table of
  the migration: \<open>id\<close> and \<open>user_id\<close> are bigserial and not among the inserted columns,
  so each takes the next value of its sequence; \<open>created_at\<close> defaults to the server
  clock \<open>now\<close> (to the second, as the column holds it), \<open>version\<close> to 1; \<open>id\<close> is
  the primary key.
\<close>

definition sql_insert_task ::
  "pg \<Rightarrow> Time \<Rightarrow> Task \<Rightarrow> db \<Rightarrow> (error + int \<times> Time \<times> int \<times> int) \<times> db" where
  "sql_insert_task p now t d =
     (if tasks_id_seq d > bigint_max then
        (Inl (Backend ''nextval: reached maximum value of sequence tasks_id_seq''), d)
      else if tasks_user_id_seq d > bigint_max then
        (Inl (Backend ''nextval: reached maximum value of sequence tasks_user_id_seq''),
         d\<lparr>tasks_id_seq := tasks_id_seq d + 1\<rparr>)
      else
        let i = tasks_id_seq d; u = tasks_user_id_seq d;
            d1 = d\<lparr>tasks_id_seq := i + 1, tasks_user_id_seq := u + 1\<rparr>
        in if i \<in> set (map Task.ID (tasks d)) then
             (Inl (Backend ''duplicate key value violates unique constraint tasks_pkey''), d1)
           else
             (Inr (i, now, u, 1),
              d1\<lparr>tasks := tasks d @
                 [\<lparr>ID = i, CreatedAt = now, Title = Title t, Description = Task.Description t,
                   DueDate = timestamp0 p (DueDate t), Priority = Priority t,
                   Status = Status t, Category = Category t, UserID = u, Version = 1\<rparr>]\<rparr>))"

text \<open>\<open>SELECT ... FROM tasks WHERE id = $1\<close>: the first row with that id, if any.\<close>

definition sql_select_task :: "int \<Rightarrow> db \<Rightarrow> (error + Task option) \<times> db" where
  "sql_select_task i d = (Inr (find (\<lambda>r. Task.ID r = i) (tasks d)), d)"

text \<open>
  \<open>UPDATE tasks SET title = $1, description = $2, priority = $3, status = $4,
  category = $5, due_date = $6, user_id = $7, version = version + 1
  WHERE id = $8 AND version = $9 RETURNING version\<close>. The column \<open>version\<close> is a
  PostgreSQL \<open>integer\<close>: \<open>version + 1\<close> beyond its maximum is an error of the statement,
  not a wrap-around. The reply is the \<open>version\<close> of the first row returned.
\<close>

definition update_hit :: "Task \<Rightarrow> Task \<Rightarrow> bool" where
  "update_hit t r = (Task.ID r = Task.ID t \<and> Version r = Version t)"

definition update_row :: "pg \<Rightarrow> Task \<Rightarrow> Task \<Rightarrow> Task" where
  "update_row p t r =
     r\<lparr>Title := Title t, Description := Task.Description t, Priority := Priority t,
       Status := Status t, Category := Category t, DueDate := timestamp0 p (DueDate t),
       UserID := UserID t, Version := Version r + 1\<rparr>"

definition sql_update_task :: "pg \<Rightarrow> Task \<Rightarrow> db \<Rightarrow> (error + int option) \<times> db" where
  "sql_update_task p t d =
     (if list_ex (\<lambda>r. update_hit t r \<and> Version r + 1 > integer_max) (tasks d) then
        (Inl (Backend ''integer out of range''), d)
      else
        (Inr (case filter (update_hit t) (tasks d) of
                [] \<Rightarrow> None
              | r # _ \<Rightarrow> Some (Version r + 1)),
         d\<lparr>tasks := map (\<lambda>r. if update_hit t r then update_row p t r else r) (tasks d)\<rparr>))"

text \<open>\<open>DELETE FROM tasks WHERE id = $1\<close>; the reply is the number of rows affected.\<close>

definition sql_delete_task :: "int \<Rightarrow> db \<Rightarrow> (error + nat) \<times> db" where
  "sql_delete_task i d =
     (Inr (length (filter (\<lambda>r. Task.ID r = i) (tasks d))),
      d\<lparr>tasks := filter (\<lambda>r. Task.ID r \<noteq> i) (tasks d)\<rparr>)"

text \<open>
  Modelled from the spec: the migration of the \<open>categories\<close> table is not among the
  sources. Section 6 gives its columns, \<open>categories(id, created_at, name, description)\<close>,
  and section 3 says \<open>id\<close> and \<open>createdAt\<close> are assigned by the store; the table is taken
  like \<open>tasks\<close>: \<open>id\<close> from a sequence and unique, \<open>created_at\<close> from the server clock.
\<close>

definition sql_insert_category ::
  "Time \<Rightarrow> Category \<Rightarrow> db \<Rightarrow> (error + int \<times> Time) \<times> db" where
  "sql_insert_category now c d =
     (if categories_id_seq d > bigint_max then
        (Inl (Backend ''nextval: reached maximum value of sequence categories_id_seq''), d)
      else
        let i = categories_id_seq d; d1 = d\<lparr>categories_id_seq := i + 1\<rparr>
        in if i \<in> set (map Category.ID (categories d)) then
             (Inl (Backend ''duplicate key value violates unique constraint categories_pkey''),
              d1)
           else
             (Inr (i, now),
              d1\<lparr>categories := categories d @
                 [\<lparr>Category.ID = i, Category.CreatedAt = now, Name = Name c,
                   Category.Description = Category.Description c\<rparr>]\<rparr>))"

definition sql_select_category :: "int \<Rightarrow> db \<Rightarrow> (error + Category option) \<times> db" where
  "sql_select_category i d = (Inr (find (\<lambda>r. Category.ID r = i) (categories d)), d)"

text \<open>\<open>UPDATE categories SET name = $1, description = $2 WHERE id = $3\<close>.\<close>

definition sql_update_category :: "Category \<Rightarrow> db \<Rightarrow> (error + nat) \<times> db" where
  "sql_update_category c d =
     (Inr (length (filter (\<lambda>r. Category.ID r = Category.ID c) (categories d))),
      d\<lparr>categories :=
           map (\<lambda>r. if Category.ID r = Category.ID c
                    then r\<lparr>Name := Name c, Category.Description := Category.Description c\<rparr>
                    else r) (categories d)\<rparr>)"

definition sql_delete_category :: "int \<Rightarrow> db \<Rightarrow> (error + nat) \<times> db" where
  "sql_delete_category i d =
     (Inr (length (filter (\<lambda>r. Category.ID r = i) (categories d))),
      d\<lparr>categories := filter (\<lambda>r. Category.ID r \<noteq> i) (categories d)\<rparr>)"

subsection \<open>database/sql: calls with and without a deadline\<close>

text \<open>
  \<open>context.WithTimeout(context.Background(), 3*time.Second)\<close>, in milliseconds.
\<close>

definition timeout_ms :: nat where
  "timeout_ms = 3000"

text \<open>
  \<open>QueryRowContext\<close>, \<open>QueryContext\<close> and \<open>ExecContext\<close> under that context: the
  statement is sent; a backend that has not answered when the deadline passes is
  abandoned and the call returns the context's error. The tables are taken as left
  untouched by an abandoned or failed statement. A backend that \<open>Breaks\<close> has run the
  statement and answered: what breaks is the closing of the result set, which only
  \<open>Scan\<close> on a \<open>Row\<close> reports (see \<open>close_error\<close>).
\<close>

definition with_deadline ::
  "backend \<Rightarrow> stmt \<Rightarrow> (db \<Rightarrow> (error + 'a) \<times> db) \<Rightarrow> db \<Rightarrow> (error + 'a) \<times> db" where
  "with_deadline b q run d =
     (case b of
        Hangs \<Rightarrow> (Inl (Backend ''context deadline exceeded''), log_stmt q d)
      | Fails m \<Rightarrow> (Inl (Backend m), log_stmt q d)
      | Responds ms \<Rightarrow>
          if ms \<ge> timeout_ms then (Inl (Backend ''context deadline exceeded''), log_stmt q d)
          else run (log_stmt q d)
      | Breaks ms m \<Rightarrow>
          if ms \<ge> timeout_ms then (Inl (Backend ''context deadline exceeded''), log_stmt q d)
          else run (log_stmt q d))"

text \<open>A backend that answers before the deadline has passed.\<close>

definition answers_in_time :: "backend \<Rightarrow> bool" where
  "answers_in_time b =
     (case b of
        Responds ms \<Rightarrow> ms < timeout_ms
      | Breaks ms m \<Rightarrow> ms < timeout_ms
      | _ \<Rightarrow> False)"

text \<open>
  \<open>QueryRow\<close> without a context: the call waits for the backend however long it
  takes; \<open>None\<close> is a call that never returns.
\<close>

definition without_deadline ::
  "backend \<Rightarrow> stmt \<Rightarrow> (db \<Rightarrow> (error + 'a) \<times> db) \<Rightarrow> db \<Rightarrow> ((error + 'a) \<times> db) option" where
  "without_deadline b q run d =
     (case b of
        Hangs \<Rightarrow> None
      | Fails m \<Rightarrow> Some (Inl (Backend m), log_stmt q d)
      | Responds ms \<Rightarrow> Some (run (log_stmt q d))
      | Breaks ms m \<Rightarrow> Some (run (log_stmt q d)))"

text \<open>
  \<open>(*Row).Scan\<close> of database/sql, which \<open>QueryRow(...).Scan(...)\<close> and
  \<open>QueryRowContext(...).Scan(...)\<close> end in: an error of the query is returned as it
  is; with no row the result is \<open>sql.ErrNoRows\<close>; with a row the values are written to
  the destinations and the result is then the error of closing the result set
  (\<open>err := r.rows.Scan(dest...); if err != nil { return err }; return r.rows.Close()\<close>).
  So \<open>Scan\<close> can have written its destinations and still return an error.
  \<open>close_error\<close> is that last error, \<open>None\<close> when the result set closes cleanly.
\<close>

definition close_error :: "backend \<Rightarrow> error option" where
  "close_error b = (case b of Breaks ms m \<Rightarrow> Some (Backend m) | _ \<Rightarrow> None)"

subsection \<open>TaskModel\<close>

text \<open>
  \<open>Insert\<close>: \<open>m.DB.QueryRow(query, args...).Scan(&task.ID, &task.CreatedAt,
  &task.UserID, &task.Version)\<close>. The result is the error (if any), the caller's
  entity after the call, and the backend.
\<close>

definition Task_Insert ::
  "pg \<Rightarrow> backend \<Rightarrow> Time \<Rightarrow> Task \<Rightarrow> db \<Rightarrow> (error option \<times> Task \<times> db) option" where
  "Task_Insert p b now task d =
     (case without_deadline b Tasks_INSERT (sql_insert_task p now task) d of
        None \<Rightarrow> None
      | Some (Inl e, d') \<Rightarrow> Some (Some e, task, d')
      | Some (Inr (i, c, u, v), d') \<Rightarrow>
          Some (close_error b,
                task\<lparr>ID := i, CreatedAt := c, UserID := u, Version := v\<rparr>, d'))"

text \<open>
  \<open>Get\<close> scans into a variable of its own and returns it only when \<open>Scan\<close> returned no
  error.
\<close>

definition Task_Get :: "backend \<Rightarrow> int \<Rightarrow> db \<Rightarrow> (error + Task) \<times> db" where
  "Task_Get b i d =
     (if i < 1 then (Inl ErrRecordNotFound, d)
      else
        (case with_deadline b (Tasks_SELECT i) (sql_select_task i) d of
           (Inl e, d') \<Rightarrow> (Inl e, d')
         | (Inr None, d') \<Rightarrow> (Inl ErrRecordNotFound, d')
         | (Inr (Some task), d') \<Rightarrow>
             (case close_error b of
                Some e \<Rightarrow> (Inl e, d')
              | None \<Rightarrow> (Inr task, d'))))"

text \<open>
  \<open>Update\<close>: \<open>Scan(&task.Version)\<close> writes the returned version into the entity when
  there is a row, and then returns the error of closing the result set, if any; with
  no row \<open>Scan\<close> returns \<open>sql.ErrNoRows\<close>, which the method turns into
  \<open>ErrEditConflict\<close>; any other error is returned as it is.
\<close>

definition Task_Update :: "pg \<Rightarrow> backend \<Rightarrow> Task \<Rightarrow> db \<Rightarrow> error option \<times> Task \<times> db" where
  "Task_Update p b task d =
     (case with_deadline b (Tasks_UPDATE (Task.ID task) (Version task))
             (sql_update_task p task) d of
        (Inl e, d') \<Rightarrow> (Some e, task, d')
      | (Inr None, d') \<Rightarrow> (Some ErrEditConflict, task, d')
      | (Inr (Some v), d') \<Rightarrow> (close_error b, task\<lparr>Version := v\<rparr>, d'))"

definition Task_Delete :: "backend \<Rightarrow> int \<Rightarrow> db \<Rightarrow> error option \<times> db" where
  "Task_Delete b i d =
     (if i < 1 then (Some ErrRecordNotFound, d)
      else
        (case with_deadline b (Tasks_DELETE i) (sql_delete_task i) d of
           (Inl e, d') \<Rightarrow> (Some e, d')
         | (Inr rowsAffected, d') \<Rightarrow>
             if rowsAffected = 0 then (Some ErrRecordNotFound, d') else (None, d')))"

subsection \<open>CategoryModel\<close>

definition Category_Insert ::
  "backend \<Rightarrow> Time \<Rightarrow> Category \<Rightarrow> db \<Rightarrow> (error option \<times> Category \<times> db) option" where
  "Category_Insert b now category d =
     (case without_deadline b Categories_INSERT (sql_insert_category now category) d of
        None \<Rightarrow> None
      | Some (Inl e, d') \<Rightarrow> Some (Some e, category, d')
      | Some (Inr (i, c), d') \<Rightarrow>
          Some (close_error b, category\<lparr>Category.ID := i, Category.CreatedAt := c\<rparr>, d'))"

definition Category_Get :: "backend \<Rightarrow> int \<Rightarrow> db \<Rightarrow> (error + Category) \<times> db" where
  "Category_Get b i d =
     (if i < 1 then (Inl ErrRecordNotFound, d)
      else
        (case with_deadline b (Categories_SELECT i) (sql_select_category i) d of
           (Inl e, d') \<Rightarrow> (Inl e, d')
         | (Inr None, d') \<Rightarrow> (Inl ErrRecordNotFound, d')
         | (Inr (Some category), d') \<Rightarrow>
             (case close_error b of
                Some e \<Rightarrow> (Inl e, d')
              | None \<Rightarrow> (Inr category, d'))))"

text \<open>\<open>Update\<close>: \<open>_, err := m.DB.ExecContext(ctx, query, args...); return err\<close>.\<close>

definition Category_Update :: "backend \<Rightarrow> Category \<Rightarrow> db \<Rightarrow> error option \<times> db" where
  "Category_Update b category d =
     (case with_deadline b (Categories_UPDATE (Category.ID category))
             (sql_update_category category) d of
        (Inl e, d') \<Rightarrow> (Some e, d')
      | (Inr _, d') \<Rightarrow> (None, d'))"

definition Category_Delete :: "backend \<Rightarrow> int \<Rightarrow> db \<Rightarrow> error option \<times> db" where
  "Category_Delete b i d =
     (if i < 1 then (Some ErrRecordNotFound, d)
      else
        (case with_deadline b (Categories_DELETE i) (sql_delete_category i) d of
           (Inl e, d') \<Rightarrow> (Some e, d')
         | (Inr rowsAffected, d') \<Rightarrow>
             if rowsAffected = 0 then (Some ErrRecordNotFound, d') else (None, d')))"


subsection \<open>Pagination and sort policy\<close>

text \<open>
  \<open>Filters\<close> and \<open>Metadata\<close> are used by the sources (\<open>GetAll\<close>, the list handlers) and
  declared in a file that is not among them. The fields of \<open>Filters\<close> are the ones the
  handlers assign.
\<close>

record Filters =
  Page :: int
  PageSize :: int
  Sort :: string
  SortSafelist :: "string list"

text \<open>
  Modelled from the spec: the type \<open>Metadata\<close> is not in the sources; section 4.3 names
  its fields: \<open>Metadata{currentPage, pageSize, firstPage, lastPage, totalRecords}\<close>.
\<close>

record Metadata =
  currentPage :: int
  pageSize :: int
  firstPage :: int
  lastPage :: int
  totalRecords :: int

text \<open>The empty struct \<open>Metadata{}\<close>: every field zero.\<close>

definition no_results :: Metadata where
  "no_results =
     \<lparr>currentPage = 0, pageSize = 0, firstPage = 0, lastPage = 0, totalRecords = 0\<rparr>"

definition strip_dash :: "string \<Rightarrow> string" where
  "strip_dash s = (case s of [] \<Rightarrow> [] | c # rest \<Rightarrow> if c = CHR ''-'' then rest else s)"

text \<open>
  Modelled from the spec: \<open>sortColumn\<close> is not in the sources. Section 4.3: it "strips a
  leading \<open>-\<close> from \<open>sort\<close> and maps it to the underlying storage column name (identity
  mapping in this system)" and "must only ever return a value drawn from the safelist";
  section 9 asks for "a strict allow-list lookup returning a fixed, pre-validated
  token". So the sort token is looked up in the safelist, and outside the safelist
  there is no value to return.
\<close>

definition sortColumn :: "Filters \<Rightarrow> string option" where
  "sortColumn f =
     (if Sort f \<in> set (SortSafelist f) then Some (strip_dash (Sort f)) else None)"

text \<open>
  Modelled from the spec: \<open>sortDirection\<close> is not in the sources. Section 4.3:
  "\<open>DESC\<close> if \<open>sort\<close> starts with \<open>-\<close>, else \<open>ASC\<close>".
\<close>

definition sortDirection :: "Filters \<Rightarrow> string" where
  "sortDirection f =
     (case Sort f of [] \<Rightarrow> ''ASC'' | c # rest \<Rightarrow> if c = CHR ''-'' then ''DESC'' else ''ASC'')"

text \<open>
  Modelled from the spec: \<open>limit\<close> and \<open>offset\<close> are not in the sources. Section 4.3:
  "\<open>limit() = pageSize\<close>; \<open>offset() = (page - 1) * pageSize\<close>".
\<close>

definition limit :: "Filters \<Rightarrow> int" where
  "limit f = PageSize f"

definition offset :: "Filters \<Rightarrow> int" where
  "offset f = (Page f - 1) * PageSize f"

text \<open>
  Modelled from the spec: \<open>calculateMetadata\<close> is not in the sources. Section 4.3:
  "\<open>computeMetadata(totalRecords, page, pageSize) -> Metadata{currentPage, pageSize,
  firstPage=1, lastPage=ceil(totalRecords/pageSize), totalRecords}\<close>: if
  \<open>totalRecords == 0\<close>, every metadata field is zero". The ceiling of the quotient is
  computed on integers; \<open>calculateMetadata_lastPage\<close> below shows it is the ceiling.
\<close>

definition calculateMetadata :: "int \<Rightarrow> int \<Rightarrow> int \<Rightarrow> Metadata" where
  "calculateMetadata records page page_size =
     (if records = 0 then no_results
      else
        \<lparr>currentPage = page, pageSize = page_size, firstPage = 1,
         lastPage = - ((- records) div page_size), totalRecords = records\<rparr>)"

text \<open>
  Modelled from the spec: the validator package is not in the sources. Section 4.2:
  "\<open>check(conditionHoldsTrue, field, message)\<close>: if the condition is false, appends
  \<open>(field, message)\<close> only if that field has no message yet"; "\<open>isValid()\<close>: true iff no
  messages recorded".
\<close>

type_synonym Validator = "(string \<times> string) list"

definition Check :: "bool \<Rightarrow> string \<Rightarrow> string \<Rightarrow> Validator \<Rightarrow> Validator" where
  "Check ok field message v =
     (if ok then v else if field \<in> set (map fst v) then v else v @ [(field, message)])"

definition Valid :: "Validator \<Rightarrow> bool" where
  "Valid v = (v = [])"

text \<open>
  Modelled from the spec: \<open>ValidateFilters\<close> is not in the sources. Section 4.3: \<open>page\<close>
  is a "positive integer ... must be \<open>\<le> 10,000,000\<close>", \<open>pageSize\<close> a "positive integer
  ... must be \<open>\<le> 100\<close>", and validation "rejects out-of-range \<open>page\<close>/\<open>pageSize\<close> and any
  \<open>sort\<close> token absent from the safelist; all failures reported through the Validation
  Engine". The spec does not give the messages; the ones here only name the check.
\<close>

definition ValidateFilters :: "Validator \<Rightarrow> Filters \<Rightarrow> Validator" where
  "ValidateFilters v f =
     Check (Sort f \<in> set (SortSafelist f)) ''sort'' ''invalid sort value''
       (Check (PageSize f \<le> 100) ''page_size'' ''must be a maximum of 100''
         (Check (PageSize f > 0) ''page_size'' ''must be greater than zero''
           (Check (Page f \<le> 10000000) ''page'' ''must be a maximum of 10 million''
             (Check (Page f > 0) ''page'' ''must be greater than zero'' v))))"

subsection \<open>The list query\<close>

text \<open>
  \<open>ORDER BY <column> <direction>, id ASC\<close>. A column value is ordered through a key:
  integers by value, timestamps chronologically, text by the collation of the
  database (\<open>collate\<close>, a parameter). Rows with equal keys are ordered by \<open>id\<close>,
  ascending whatever the direction.
\<close>

definition int_key :: "int \<Rightarrow> int list" where
  "int_key i = [i]"

definition text_key :: "pg \<Rightarrow> string \<Rightarrow> int list" where
  "text_key p s = collate p s"

definition time_key :: "Time \<Rightarrow> int list" where
  "time_key t = [Year t, int (Month t), int (Day t), int (Hour t), int (Minute t),
     int (Second t), int (Nanosecond t)]"

definition tasks_column :: "pg \<Rightarrow> string \<Rightarrow> (Task \<Rightarrow> int list) option" where
  "tasks_column p c =
     (if c = ''id'' then Some (\<lambda>r. int_key (Task.ID r))
      else if c = ''created_at'' then Some (\<lambda>r. time_key (Task.CreatedAt r))
      else if c = ''title'' then Some (\<lambda>r. text_key p (Title r))
      else if c = ''description'' then Some (\<lambda>r. text_key p (Task.Description r))
      else if c = ''due_date'' then Some (\<lambda>r. time_key (DueDate r))
      else if c = ''priority'' then Some (\<lambda>r. text_key p (Priority r))
      else if c = ''status'' then Some (\<lambda>r. text_key p (Status r))
      else if c = ''category'' then Some (\<lambda>r. text_key p (Category r))
      else if c = ''user_id'' then Some (\<lambda>r. int_key (UserID r))
      else if c = ''version'' then Some (\<lambda>r. int_key (Version r))
      else None)"

definition categories_column :: "pg \<Rightarrow> string \<Rightarrow> (Category \<Rightarrow> int list) option" where
  "categories_column p c =
     (if c = ''id'' then Some (\<lambda>r. int_key (Category.ID r))
      else if c = ''created_at'' then Some (\<lambda>r. time_key (Category.CreatedAt r))
      else if c = ''name'' then Some (\<lambda>r. text_key p (Name r))
      else if c = ''description'' then Some (\<lambda>r. text_key p (Category.Description r))
      else None)"

definition order_by ::
  "('r \<Rightarrow> int list) \<Rightarrow> string \<Rightarrow> ('r \<Rightarrow> int) \<Rightarrow> 'r \<Rightarrow> 'r \<Rightarrow> bool" where
  "order_by key dir ident r1 r2 =
     ((if dir = ''DESC'' then key r2 < key r1 else key r1 < key r2) \<or>
      (key r1 = key r2 \<and> ident r1 \<le> ident r2))"

fun insort_by :: "('r \<Rightarrow> 'r \<Rightarrow> bool) \<Rightarrow> 'r \<Rightarrow> 'r list \<Rightarrow> 'r list" where
  "insort_by le x [] = [x]"
| "insort_by le x (y # ys) = (if le x y then x # y # ys else y # insort_by le x ys)"

definition sort_by :: "('r \<Rightarrow> 'r \<Rightarrow> bool) \<Rightarrow> 'r list \<Rightarrow> 'r list" where
  "sort_by le xs = foldr (insort_by le) xs []"

text \<open>
  \<open>SELECT count(*) OVER(), ... ORDER BY ... LIMIT $lmt OFFSET $ofs\<close> over the rows that
  passed the \<open>WHERE\<close> clause: every row of the reply carries the number of those rows,
  counted before the window is cut. PostgreSQL refuses a negative \<open>LIMIT\<close> or \<open>OFFSET\<close>.
\<close>

definition select_page ::
  "('r \<Rightarrow> 'r \<Rightarrow> bool) \<Rightarrow> int \<Rightarrow> int \<Rightarrow> 'r list \<Rightarrow> error + (int \<times> 'r) list" where
  "select_page le lmt ofs matching =
     (if lmt < 0 then Inl (Backend ''LIMIT must not be negative'')
      else if ofs < 0 then Inl (Backend ''OFFSET must not be negative'')
      else Inr (map (\<lambda>r. (int (length matching), r))
                  (take (nat lmt) (drop (nat ofs) (sort_by le matching)))))"

text \<open>
  The text search configuration \<open>simple\<close>, which the query names: the parser's words go
  through the \<open>simple\<close> dictionary, which turns a word into lower case and drops none.
  Lower case is taken on the letters \<open>A\<close> to \<open>Z\<close>; what the locale of the database does
  to other characters is left out. The lexemes of a text are its words in lower case.
\<close>

definition lower_ascii :: "char \<Rightarrow> char" where
  "lower_ascii c =
     (case map_of (zip ''ABCDEFGHIJKLMNOPQRSTUVWXYZ'' ''abcdefghijklmnopqrstuvwxyz'') c of
        None \<Rightarrow> c
      | Some l \<Rightarrow> l)"

definition simple_dict :: "string \<Rightarrow> string" where
  "simple_dict w = map lower_ascii w"

definition ts_lexemes :: "pg \<Rightarrow> string \<Rightarrow> string list" where
  "ts_lexemes p s = map simple_dict (ts_parse p s)"

text \<open>
  \<open>to_tsvector('simple', title) @@ plainto_tsquery('simple', $1)\<close>: the query is the
  conjunction of the lexemes of \<open>$1\<close>, and a query without lexemes matches nothing.
\<close>

definition fts_match :: "pg \<Rightarrow> string \<Rightarrow> string \<Rightarrow> bool" where
  "fts_match p doc q =
     (ts_lexemes p q \<noteq> [] \<and> list_all (\<lambda>w. w \<in> set (ts_lexemes p doc)) (ts_lexemes p q))"

definition tasks_where :: "pg \<Rightarrow> string \<Rightarrow> Task \<Rightarrow> bool" where
  "tasks_where p title r = (fts_match p (Title r) title \<or> title = [])"

definition sql_select_tasks ::
  "pg \<Rightarrow> string \<Rightarrow> string \<Rightarrow> string \<Rightarrow> int \<Rightarrow> int \<Rightarrow> db \<Rightarrow>
   (error + (int \<times> Task) list) \<times> db" where
  "sql_select_tasks p col dir title lmt ofs d =
     (case tasks_column p col of
        None \<Rightarrow> (Inl (Backend ''column does not exist''), d)
      | Some key \<Rightarrow>
          (select_page (order_by key dir Task.ID) lmt ofs
             (filter (tasks_where p title) (tasks d)), d))"

text \<open>
  \<open>SELECT count(*) OVER(), id, created_at, name, description FROM categories
  ORDER BY ... LIMIT $1 OFFSET $2\<close>: no \<open>WHERE\<close> clause.
\<close>

definition sql_select_categories ::
  "pg \<Rightarrow> string \<Rightarrow> string \<Rightarrow> int \<Rightarrow> int \<Rightarrow> db \<Rightarrow>
   (error + (int \<times> Category) list) \<times> db" where
  "sql_select_categories p col dir lmt ofs d =
     (case categories_column p col of
        None \<Rightarrow> (Inl (Backend ''column does not exist''), d)
      | Some key \<Rightarrow> (select_page (order_by key dir Category.ID) lmt ofs (categories d), d))"

text \<open>
  The loop \<open>for rows.Next() { rows.Scan(&totalRecords, &task.ID, ...); tasks =
  append(tasks, &task) }\<close>, started with \<open>totalRecords := 0\<close> and an empty slice.
\<close>

fun scan_rows :: "(int \<times> 'r) list \<Rightarrow> int \<times> 'r list \<Rightarrow> int \<times> 'r list" where
  "scan_rows [] acc = acc"
| "scan_rows ((n, r) # rest) (records, rs) = scan_rows rest (n, rs @ [r])"

text \<open>
  \<open>GetAll\<close>. The query text is built with the results of \<open>sortColumn\<close> and
  \<open>sortDirection\<close>; where \<open>sortColumn\<close> has no value the call stops there, before
  anything is sent. The result set is closed by \<open>defer rows.Close()\<close>, whose error is
  dropped. On categories the method takes the \<open>Filters\<close> alone: no text to filter by.
\<close>

definition Task_GetAll ::
  "pg \<Rightarrow> backend \<Rightarrow> string \<Rightarrow> Filters \<Rightarrow> db \<Rightarrow> (error + Task list \<times> Metadata) \<times> db" where
  "Task_GetAll p b title filters d =
     (case sortColumn filters of
        None \<Rightarrow> (Inl (Panic ''unsafe sort parameter''), d)
      | Some col \<Rightarrow>
          (case with_deadline b
                  (Tasks_SELECT_ALL col (sortDirection filters) title (limit filters)
                     (offset filters))
                  (sql_select_tasks p col (sortDirection filters) title (limit filters)
                     (offset filters)) d of
             (Inl e, d') \<Rightarrow> (Inl e, d')
           | (Inr rows, d') \<Rightarrow>
               (case scan_rows rows (0, []) of
                  (records, ts) \<Rightarrow>
                    (Inr (ts, calculateMetadata records (Page filters) (PageSize filters)),
                     d'))))"

definition Category_GetAll ::
  "pg \<Rightarrow> backend \<Rightarrow> Filters \<Rightarrow> db \<Rightarrow> (error + Category list \<times> Metadata) \<times> db" where
  "Category_GetAll p b filters d =
     (case sortColumn filters of
        None \<Rightarrow> (Inl (Panic ''unsafe sort parameter''), d)
      | Some col \<Rightarrow>
          (case with_deadline b
                  (Categories_SELECT_ALL col (sortDirection filters) (limit filters)
                     (offset filters))
                  (sql_select_categories p col (sortDirection filters) (limit filters)
                     (offset filters)) d of
             (Inl e, d') \<Rightarrow> (Inl e, d')
           | (Inr rows, d') \<Rightarrow>
               (case scan_rows rows (0, []) of
                  (records, cs) \<Rightarrow>
                    (Inr (cs, calculateMetadata records (Page filters) (PageSize filters)),
                     d'))))"

subsection \<open>The list handlers\<close>

text \<open>
  \<open>listTasksHandler\<close> and \<open>listCategoriesHandler\<close> (cmd/api). The helpers that read the
  query string are not among the sources, so what they return is given: the values
  read for \<open>title\<close>, \<open>page\<close>, \<open>page_size\<close> and \<open>sort\<close>, and the validator \<open>v\<close> as
  \<open>readInt\<close> left it. The response is what the handler writes.
\<close>

datatype response =
  FailedValidation Validator
  | ServerError error
  | OK_tasks "Task list" Metadata
  | Nothing_written

definition tasks_SortSafelist :: "string list" where
  "tasks_SortSafelist =
     [''id'', ''title'', ''priority'', ''category'', ''-id'', ''-title'', ''-priority'',
      ''-category'']"

definition categories_SortSafelist :: "string list" where
  "categories_SortSafelist = [''id'', ''name'', ''-id'', ''-name'']"

definition listTasksHandler ::
  "pg \<Rightarrow> backend \<Rightarrow> Validator \<Rightarrow> string \<Rightarrow> int \<Rightarrow> int \<Rightarrow> string \<Rightarrow> db \<Rightarrow> response \<times> db" where
  "listTasksHandler p b v title page page_size sort_value d =
     (let filters = \<lparr>Page = page, PageSize = page_size, Sort = sort_value,
                     SortSafelist = tasks_SortSafelist\<rparr>;
          v' = ValidateFilters v filters
      in if \<not> Valid v' then (FailedValidation v', d)
         else
           (case Task_GetAll p b title filters d of
              (Inl e, d') \<Rightarrow> (ServerError e, d')
            | (Inr (ts, metadata), d') \<Rightarrow> (OK_tasks ts metadata, d')))"

text \<open>After the validation \<open>listCategoriesHandler\<close> ends: it calls no model.\<close>

definition listCategoriesHandler ::
  "Validator \<Rightarrow> string \<Rightarrow> int \<Rightarrow> int \<Rightarrow> string \<Rightarrow> db \<Rightarrow> response \<times> db" where
  "listCategoriesHandler v name page page_size sort_value d =
     (let filters = \<lparr>Page = page, PageSize = page_size, Sort = sort_value,
                     SortSafelist = categories_SortSafelist\<rparr>;
          v' = ValidateFilters v filters
      in if \<not> Valid v' then (FailedValidation v', d) else (Nothing_written, d))"

subsection \<open>The temporal value: \<open>time.Format\<close>, \<open>time.Parse\<close> and \<open>strconv\<close>\<close>

text \<open>
  \<open>MarshalJSON\<close> and \<open>UnmarshalJSON\<close> (due_date.go) call \<open>time.Time.Format\<close>,
  \<open>time.Parse\<close>, \<open>strconv.Quote\<close> and \<open>strconv.Unquote\<close> of the Go standard library
  (go 1.21, as the Dockerfile fixes it) with the layout \<open>2006-01-02 15:04:05\<close>. The
  functions below follow \<open>time/format.go\<close> for the elements of that layout: the year
  \<open>2006\<close>, the zero-padded \<open>01\<close>, \<open>02\<close>, \<open>04\<close>, \<open>05\<close>, and the hour \<open>15\<close>.
\<close>

definition isDigit :: "string \<Rightarrow> nat \<Rightarrow> bool" where
  "isDigit s i = (i < length s \<and> CHR ''0'' \<le> s ! i \<and> s ! i \<le> CHR ''9'')"

text \<open>\<open>int(c - '0')\<close>.\<close>

definition digit_value :: "char \<Rightarrow> nat" where
  "digit_value c = of_char c - 48"

definition digit_char :: "nat \<Rightarrow> char" where
  "digit_char n = ''0123456789'' ! n"

text \<open>
  \<open>getnum(s, fixed)\<close>: one or two digits, two when \<open>fixed\<close>; the rest of the text is
  returned with the number.
\<close>

definition getnum :: "string \<Rightarrow> bool \<Rightarrow> (nat \<times> string) option" where
  "getnum s fixed =
     (if \<not> isDigit s 0 then None
      else if \<not> isDigit s 1 then
        (if fixed then None else Some (digit_value (s ! 0), drop 1 s))
      else Some (digit_value (s ! 0) * 10 + digit_value (s ! 1), drop 2 s))"

text \<open>
  \<open>leadingInt\<close> and \<open>atoi\<close>. The overflow check of \<open>leadingInt\<close> is left out: \<open>Parse\<close>
  gives \<open>atoi\<close> at most nine digits here.
\<close>

fun leadingInt :: "string \<Rightarrow> nat \<Rightarrow> nat \<times> string" where
  "leadingInt [] x = (x, [])"
| "leadingInt (c # s) x =
     (if c < CHR ''0'' \<or> CHR ''9'' < c then (x, c # s)
      else leadingInt s (x * 10 + digit_value c))"

definition atoi :: "string \<Rightarrow> int option" where
  "atoi s =
     (let neg = (s \<noteq> [] \<and> hd s = CHR ''-'');
          s' = (if s \<noteq> [] \<and> (hd s = CHR ''-'' \<or> hd s = CHR ''+'') then tl s else s)
      in case leadingInt s' 0 of
           (q, rem) \<Rightarrow> if rem \<noteq> [] then None else Some (if neg then - int q else int q))"

definition cutspace :: "string \<Rightarrow> string" where
  "cutspace s = dropWhile (\<lambda>c. c = CHR '' '') s"

text \<open>
  \<open>skip(value, prefix)\<close>: the text between two elements of the layout must be found in
  the value; a blank of the layout stands for any run of blanks of the value (when
  \<open>prefix\<close> starts with a blank, \<open>cutspace\<close> of it is \<open>cutspace\<close> of what follows the blank).
\<close>

function skip :: "string \<Rightarrow> string \<Rightarrow> string option" where
  "skip v [] = Some v"
| "skip v (p # prefix) =
     (if p = CHR '' '' then
        (if v \<noteq> [] \<and> hd v \<noteq> CHR '' '' then None
         else skip (cutspace v) (cutspace prefix))
      else if v = [] \<or> hd v \<noteq> p then None
      else skip (tl v) prefix)"
  by pat_completeness auto
termination
  by (relation "measure (\<lambda>(v, prefix). length prefix)")
    (auto simp: cutspace_def le_imp_less_Suc length_dropWhile_le)

definition commaOrPeriod :: "char \<Rightarrow> bool" where
  "commaOrPeriod c = (c = CHR ''.'' \<or> c = CHR '','')"

definition parseNanoseconds :: "string \<Rightarrow> nat \<Rightarrow> nat option" where
  "parseNanoseconds v nbytes =
     (if \<not> commaOrPeriod (v ! 0) then None
      else
        let v' = (if nbytes > 10 then take 10 v else v);
            nbytes' = (if nbytes > 10 then 10 else nbytes)
        in case atoi (take (nbytes' - 1) (drop 1 v')) of
             None \<Rightarrow> None
           | Some ns \<Rightarrow> if ns < 0 then None else Some (nat ns * 10 ^ (10 - nbytes')))"

definition isLeap :: "int \<Rightarrow> bool" where
  "isLeap y = (y mod 4 = 0 \<and> (y mod 100 \<noteq> 0 \<or> y mod 400 = 0))"

definition daysIn :: "nat \<Rightarrow> int \<Rightarrow> nat" where
  "daysIn m y =
     (if m = 2 \<and> isLeap y then 29
      else [31, 28, 31, 30, 31, 30, 31, 31, 30, 31, 30, 31] ! (m - 1))"

definition ensure :: "bool \<Rightarrow> unit option" where
  "ensure ok = (if ok then Some () else None)"

text \<open>
  The fractional second that \<open>Parse\<close> accepts after the seconds although the layout has
  none: a period or a comma followed by digits, as many as there are.
\<close>

definition fraction :: "string \<Rightarrow> (nat \<times> string) option" where
  "fraction v =
     (if 2 \<le> length v \<and> commaOrPeriod (v ! 0) \<and> isDigit v 1 then
        let n = 2 + length (takeWhile (\<lambda>c. CHR ''0'' \<le> c \<and> c \<le> CHR ''9'') (drop 2 v))
        in map_option (\<lambda>ns. (ns, drop n v)) (parseNanoseconds v n)
      else Some (0, v))"

text \<open>
  \<open>time.Parse("2006-01-02 15:04:05", value)\<close>; \<open>None\<close> is any error of \<open>Parse\<close>. The
  hour \<open>15\<close> is read with \<open>getnum(value, false)\<close>, the other two-digit elements with
  \<open>getnum(value, true)\<close>; the day is checked against the month at the end. The result
  is in UTC.
\<close>

definition Parse :: "string \<Rightarrow> Time option" where
  "Parse v0 =
     do {
       _ \<leftarrow> ensure (4 \<le> length v0 \<and> isDigit v0 0);
       y \<leftarrow> atoi (take 4 v0);
       v1 \<leftarrow> skip (drop 4 v0) ''-'';
       (m, v2) \<leftarrow> getnum v1 True;
       _ \<leftarrow> ensure (0 < m \<and> m \<le> 12);
       v3 \<leftarrow> skip v2 ''-'';
       (dd, v4) \<leftarrow> getnum v3 True;
       v5 \<leftarrow> skip v4 '' '';
       (h, v6) \<leftarrow> getnum v5 False;
       _ \<leftarrow> ensure (h < 24);
       v7 \<leftarrow> skip v6 '':'';
       (mi, v8) \<leftarrow> getnum v7 True;
       _ \<leftarrow> ensure (mi < 60);
       v9 \<leftarrow> skip v8 '':'';
       (s, v10) \<leftarrow> getnum v9 True;
       _ \<leftarrow> ensure (s < 60);
       (ns, v11) \<leftarrow> fraction v10;
       _ \<leftarrow> ensure (v11 = []);
       _ \<leftarrow> ensure (1 \<le> dd \<and> dd \<le> daysIn m y);
       Some \<lparr>Year = y, Month = m, Day = dd, Hour = h, Minute = mi, Second = s,
              Nanosecond = ns\<rparr>
     }"

text \<open>\<open>appendInt(b, x, width)\<close>: the decimal digits of \<open>x\<close>, zero-padded to \<open>width\<close>.\<close>

fun digits :: "nat \<Rightarrow> string" where
  "digits n = (if n < 10 then [digit_char n] else digits (n div 10) @ [digit_char (n mod 10)])"

definition appendInt :: "int \<Rightarrow> nat \<Rightarrow> string" where
  "appendInt x width =
     (if x < 0 then ''-'' else []) @
     replicate (width - length (digits (nat \<bar>x\<bar>))) (CHR ''0'') @ digits (nat \<bar>x\<bar>)"

text \<open>\<open>t.Format("2006-01-02 15:04:05")\<close>.\<close>

definition Format :: "Time \<Rightarrow> string" where
  "Format t =
     appendInt (Year t) 4 @ ''-'' @ appendInt (int (Month t)) 2 @ ''-'' @
     appendInt (int (Day t)) 2 @ '' '' @ appendInt (int (Hour t)) 2 @ '':'' @
     appendInt (int (Minute t)) 2 @ '':'' @ appendInt (int (Second t)) 2"

text \<open>
  \<open>strconv.Quote\<close> and \<open>strconv.Unquote\<close>. A text of plain characters (printable ASCII
  other than the double quote and the backslash) is quoted by putting it between
  double quotes, and unquoted by taking them off. What \<open>strconv\<close> does with the other
  characters and the other forms (escape sequences, raw and single-quoted literals) is
  a parameter.
\<close>

record strconv =
  escape :: "char \<Rightarrow> string"
  unquote_other :: "string \<Rightarrow> string option"

definition plain_char :: "char \<Rightarrow> bool" where
  "plain_char c =
     (32 \<le> (of_char c :: nat) \<and> (of_char c :: nat) < 127 \<and> c \<noteq> CHR 0x22 \<and> c \<noteq> CHR 0x5C)"

definition Quote :: "strconv \<Rightarrow> string \<Rightarrow> string" where
  "Quote sc s =
     CHR 0x22 # concat (map (\<lambda>c. if plain_char c then [c] else escape sc c) s) @ [CHR 0x22]"

definition Unquote :: "strconv \<Rightarrow> string \<Rightarrow> string option" where
  "Unquote sc s =
     (if 2 \<le> length s \<and> hd s = CHR 0x22 \<and> last s = CHR 0x22 \<and>
         list_all plain_char (butlast (tl s))
      then Some (butlast (tl s))
      else unquote_other sc s)"

text \<open>
  \<open>MarshalJSON\<close> and \<open>UnmarshalJSON\<close> of \<open>CustomTime\<close>. \<open>UnmarshalJSON\<close> returns the
  value it stores through its receiver; its \<open>fmt.Println\<close> of the parsed time is left
  out.
\<close>

definition MarshalJSON :: "strconv \<Rightarrow> CustomTime \<Rightarrow> string" where
  "MarshalJSON sc ct = Quote sc (Format ct)"

definition UnmarshalJSON :: "strconv \<Rightarrow> string \<Rightarrow> error + CustomTime" where
  "UnmarshalJSON sc jsonValue =
     (case Unquote sc jsonValue of
        None \<Rightarrow> Inl ErrInvalidTimeFormat
      | Some unquotedJSONValue \<Rightarrow>
          (case Parse unquotedJSONValue of
             None \<Rightarrow> Inl ErrInvalidTimeFormat
           | Some parsedTime \<Rightarrow> Inr parsedTime))"

text \<open>
  A calendar time as \<open>time.Date\<close> takes it without normalising, and the years that
  \<open>Format\<close> prints with four digits.
\<close>

definition valid_Time :: "Time \<Rightarrow> bool" where
  "valid_Time t =
     (0 \<le> Year t \<and> Year t \<le> 9999 \<and> 1 \<le> Month t \<and> Month t \<le> 12 \<and>
      1 \<le> Day t \<and> Day t \<le> daysIn (Month t) (Year t) \<and>
      Hour t < 24 \<and> Minute t < 60 \<and> Second t < 60 \<and> Nanosecond t < 1000000000)"

text \<open>
  What a fraction of a second stands for, to compare with what \<open>Parse\<close> computes:
  \<open>decimal\<close> is the number a text of digits spells, and \<open>nanoseconds_of\<close> the
  nanoseconds in the fraction \<open>0.ds\<close>, the digits after the ninth dropped.
\<close>

definition decimal :: "string \<Rightarrow> nat" where
  "decimal ds = foldl (\<lambda>x c. x * 10 + digit_value c) 0 ds"

definition nanoseconds_of :: "string \<Rightarrow> nat" where
  "nanoseconds_of ds = decimal (take 9 ds) * 10 ^ (9 - length (take 9 ds))"

subsection \<open>Scenarios and sample data\<close>

text \<open>
  \<open>Task_Update_seq\<close> is a caller that updates one entity several times in a row: before
  each call it may edit the entity (the edit cannot touch \<open>ID\<close> or \<open>Version\<close>, as
  \<open>updateTaskHandler\<close> cannot), and it goes on only after a success, with the entity the
  call left it.
\<close>

fun Task_Update_seq ::
  "pg \<Rightarrow> (backend \<times> (Task \<Rightarrow> Task)) list \<Rightarrow> Task \<Rightarrow> db \<Rightarrow> (Task \<times> db) option" where
  "Task_Update_seq p [] task d = Some (task, d)"
| "Task_Update_seq p ((b, edit) # steps) task d =
     (case Task_Update p b ((edit task)\<lparr>ID := Task.ID task, Version := Version task\<rparr>) d of
        (None, task', d') \<Rightarrow> Task_Update_seq p steps task' d'
      | (Some e, _, _) \<Rightarrow> None)"

text \<open>
  A stand-in for the parameters: the words of a text are what stands between blanks,
  text is ordered byte by byte (the collation \<open>C\<close>), and a fraction of a second is cut.
\<close>

fun split_words :: "string \<Rightarrow> string \<Rightarrow> string list" where
  "split_words [] w = (if w = [] then [] else [w])"
| "split_words (c # cs) w =
     (if c = CHR '' '' then (if w = [] then split_words cs [] else w # split_words cs [])
      else split_words cs (w @ [c]))"

definition pg_sample :: pg where
  "pg_sample =
     \<lparr>ts_parse = (\<lambda>s. split_words s []),
      collate = (\<lambda>s. map (\<lambda>c. int (of_char c)) s),
      round_ts0 = (\<lambda>t. t\<lparr>Nanosecond := 0\<rparr>)\<rparr>"

definition empty_db :: db where
  "empty_db = \<lparr>tasks = [], tasks_id_seq = 1, tasks_user_id_seq = 1, categories = [],
     categories_id_seq = 1, queries = []\<rparr>"

definition midnight :: "int \<Rightarrow> nat \<Rightarrow> nat \<Rightarrow> Time" where
  "midnight y m dd =
     \<lparr>Year = y, Month = m, Day = dd, Hour = 0, Minute = 0, Second = 0, Nanosecond = 0\<rparr>"

definition clock_sample :: Time where
  "clock_sample =
     \<lparr>Year = 2024, Month = 3, Day = 5, Hour = 9, Minute = 30, Second = 0, Nanosecond = 0\<rparr>"

definition task_A :: Task where
  "task_A = \<lparr>ID = 0, CreatedAt = midnight 1 1 1, Title = ''A'', Description = ''first'',
     DueDate = midnight 2024 1 1, Priority = ''high'', Status = ''to-do'', Category = ''work'',
     UserID = 42, Version = 0\<rparr>"

definition row_A :: Task where
  "row_A = task_A\<lparr>ID := 1, CreatedAt := clock_sample, UserID := 1, Version := 1\<rparr>"

definition db_A :: db where
  "db_A = \<lparr>tasks = [row_A], tasks_id_seq = 2, tasks_user_id_seq = 2, categories = [],
     categories_id_seq = 1, queries = [Tasks_INSERT]\<rparr>"

text \<open>
  A stand-in for the part of \<open>strconv\<close> left open: a backslash before a character that
  is not plain, and nothing unquoted but plain double-quoted text.
\<close>

definition strconv_sample :: strconv where
  "strconv_sample = \<lparr>escape = (\<lambda>c. [CHR 0x5C, c]), unquote_other = (\<lambda>s. None)\<rparr>"

definition task_B :: Task where
  "task_B = task_A\<lparr>Title := ''B'', DueDate := midnight 2024 1 2\<rparr>"

text \<open>The backend after \<open>Insert\<close> of \<open>task_A\<close> and then of \<open>task_B\<close>, both answered.\<close>

definition db_AB :: "pg \<Rightarrow> db" where
  "db_AB p =
     (case Task_Insert p (Responds 5) clock_sample task_A empty_db of
        None \<Rightarrow> empty_db
      | Some (_, _, d1) \<Rightarrow>
          (case Task_Insert p (Responds 5) clock_sample task_B d1 of
             None \<Rightarrow> empty_db
           | Some (_, _, d2) \<Rightarrow> d2))"

definition cat_Work :: Category where
  "cat_Work = \<lparr>Category.ID = 1, Category.CreatedAt = clock_sample, Name = ''Work'',
     Category.Description = ''office''\<rparr>"

definition cat_Home :: Category where
  "cat_Home = \<lparr>Category.ID = 2, Category.CreatedAt = clock_sample, Name = ''Home'',
     Category.Description = ''house''\<rparr>"

definition db_cats :: db where
  "db_cats = \<lparr>tasks = [], tasks_id_seq = 1, tasks_user_id_seq = 1,
     categories = [cat_Work, cat_Home], categories_id_seq = 3, queries = []\<rparr>"

section \<open>Properties\<close>

subsection \<open>Auxiliary facts\<close>

lemma log_stmt_simps [simp]:
  "tasks (log_stmt q d) = tasks d"
  "categories (log_stmt q d) = categories d"
  "tasks_id_seq (log_stmt q d) = tasks_id_seq d"
  "tasks_user_id_seq (log_stmt q d) = tasks_user_id_seq d"
  "categories_id_seq (log_stmt q d) = categories_id_seq d"
  "queries (log_stmt q d) = queries d @ [q]"
  by (simp_all add: log_stmt_def)

lemma filter_hd_prop: "filter P xs = r # rest \<Longrightarrow> P r \<and> r \<in> set xs"
  by (induction xs) (auto split: if_splits)

lemma map_if_no_hit: "filter P xs = [] \<Longrightarrow> map (\<lambda>r. if P r then f r else r) xs = xs"
  by (induction xs) (auto split: if_splits)

subsection \<open>Task update\<close>

lemma close_error_simps [simp]:
  "close_error (Responds ms) = None"
  "close_error (Breaks ms m) = Some (Backend m)"
  "close_error (Fails m) = None"
  "close_error Hangs = None"
  by (simp_all add: close_error_def)

lemma close_error_cases:
  "close_error b = None \<and> (\<forall>ms m. b \<noteq> Breaks ms m) \<or>
   (\<exists>ms m. b = Breaks ms m \<and> close_error b = Some (Backend m))"
  by (cases b) simp_all

lemma with_deadline_run:
  "answers_in_time b \<Longrightarrow> with_deadline b q run d = run (log_stmt q d)"
  by (cases b) (simp_all add: answers_in_time_def with_deadline_def)

lemma with_deadline_late:
  "\<not> answers_in_time b \<Longrightarrow> \<exists>m. with_deadline b q run d = (Inl (Backend m), log_stmt q d)"
  by (cases b) (simp_all add: answers_in_time_def with_deadline_def)

lemma with_deadline_Inr:
  "with_deadline b q run d = (Inr x, d') \<Longrightarrow>
   answers_in_time b \<and> run (log_stmt q d) = (Inr x, d')"
  by (cases b) (auto simp: answers_in_time_def with_deadline_def split: if_splits)

lemma sql_update_task_cases:
  assumes "sql_update_task p task d = (r, d')"
  shows "((\<exists>m. r = Inl (Backend m)) \<and> d' = d) \<or>
   (r = Inr None \<and> filter (update_hit task) (tasks d) = [] \<and> tasks d' = tasks d \<and>
    queries d' = queries d) \<or>
   (r = Inr (Some (Version task + 1)) \<and> filter (update_hit task) (tasks d) \<noteq> [] \<and>
    tasks d' = map (\<lambda>r. if update_hit task r then update_row p task r else r) (tasks d) \<and>
    queries d' = queries d)"
proof (cases "list_ex (\<lambda>r. update_hit task r \<and> Version r + 1 > integer_max) (tasks d)")
  case True
  with assms show ?thesis by (auto simp add: sql_update_task_def)
next
  case False
  show ?thesis
  proof (cases "filter (update_hit task) (tasks d)")
    case Nil
    with assms False show ?thesis
      by (auto simp add: sql_update_task_def map_if_no_hit)
  next
    case (Cons x xs)
    then have "update_hit task x" using filter_hd_prop by fastforce
    then have "Version x = Version task" by (simp add: update_hit_def)
    with assms False Cons show ?thesis
      by (auto simp add: sql_update_task_def)
  qed
qed

lemma Task_Update_cases:
  assumes "Task_Update p b task d = (err, task', d')"
  shows
    "((\<exists>m. err = Some (Backend m)) \<and> task' = task \<and> tasks d' = tasks d) \<or>
     (err = Some ErrEditConflict \<and> task' = task \<and> tasks d' = tasks d \<and>
      filter (update_hit task) (tasks d) = []) \<or>
     (err = close_error b \<and> task' = task\<lparr>Version := Version task + 1\<rparr> \<and>
      answers_in_time b \<and> filter (update_hit task) (tasks d) \<noteq> [] \<and>
      tasks d' = map (\<lambda>r. if update_hit task r then update_row p task r else r) (tasks d))"
proof (cases "answers_in_time b")
  case False
  from with_deadline_late [OF this, of "Tasks_UPDATE (Task.ID task) (Version task)"
      "sql_update_task p task" d]
  obtain m where "with_deadline b (Tasks_UPDATE (Task.ID task) (Version task))
      (sql_update_task p task) d =
      (Inl (Backend m), log_stmt (Tasks_UPDATE (Task.ID task) (Version task)) d)"
    by blast
  with assms have "err = Some (Backend m)" "task' = task"
    "d' = log_stmt (Tasks_UPDATE (Task.ID task) (Version task)) d"
    by (auto simp add: Task_Update_def)
  then show ?thesis by simp
next
  case True
  let ?d0 = "log_stmt (Tasks_UPDATE (Task.ID task) (Version task)) d"
  obtain r d1 where r: "sql_update_task p task ?d0 = (r, d1)"
    by (cases "sql_update_task p task ?d0")
  from assms True r have u:
    "(case (r, d1) of
        (Inl e, d') \<Rightarrow> (Some e, task, d')
      | (Inr None, d') \<Rightarrow> (Some ErrEditConflict, task, d')
      | (Inr (Some v), d') \<Rightarrow> (close_error b, task\<lparr>Version := v\<rparr>, d')) = (err, task', d')"
    by (simp add: Task_Update_def with_deadline_run)
  from sql_update_task_cases [OF r] consider
    (fail) m where "r = Inl (Backend m)" "d1 = ?d0"
    | (none) "r = Inr None" "filter (update_hit task) (tasks d) = []" "tasks d1 = tasks d"
    | (hit) "r = Inr (Some (Version task + 1))" "filter (update_hit task) (tasks d) \<noteq> []"
        "tasks d1 = map (\<lambda>r. if update_hit task r then update_row p task r else r) (tasks d)"
    by auto
  then show ?thesis
  proof cases
    case fail
    with u show ?thesis by auto
  next
    case none
    with u show ?thesis by auto
  next
    case hit
    with u True show ?thesis by auto
  qed
qed

lemma Task_Update_entity:
  assumes "Task_Update p b task d = (err, task', d')"
  shows "(err = None \<longrightarrow> task' = task\<lparr>Version := Version task + 1\<rparr>) \<and>
    (err \<noteq> None \<longrightarrow> (err = Some ErrEditConflict \<or> (\<exists>m. err = Some (Backend m)))) \<and>
    (err = Some ErrEditConflict \<longrightarrow> task' = task) \<and>
    (err \<noteq> None \<and> (\<forall>ms m. b \<noteq> Breaks ms m) \<longrightarrow> task' = task) \<and>
    (task' \<noteq> task \<longrightarrow>
       task' = task\<lparr>Version := Version task + 1\<rparr> \<and>
       (err = None \<or> (\<exists>ms m. b = Breaks ms m \<and> err = Some (Backend m))))"
  using Task_Update_cases [OF assms] close_error_cases [of b] by auto

lemma Task_Update_changed:
  assumes "Task_Update p b task d = (err, task', d')" and "task' \<noteq> task"
  shows "list_ex (update_hit task) (tasks d)"
proof -
  from Task_Update_cases [OF assms(1)] assms(2)
  have "filter (update_hit task) (tasks d) \<noteq> []" by blast
  then show ?thesis by (auto simp: list_ex_iff filter_empty_conv)
qed

lemma Task_Update_success:
  assumes "Task_Update p b task d = (None, task', d')"
  shows "task' = task\<lparr>Version := Version task + 1\<rparr>"
  using Task_Update_entity [OF assms] by blast

lemma Task_Update_queries:
  "Task_Update p b task d = (err, task', d') \<Longrightarrow>
   queries d' = queries d @ [Tasks_UPDATE (Task.ID task) (Version task)]"
  by (auto simp: Task_Update_def with_deadline_def sql_update_task_def
      split: backend.splits if_splits prod.splits sum.splits option.splits)

lemma Task_Update_tables:
  assumes "Task_Update p b task d = (err, task', d')"
  shows "(err = Some ErrEditConflict \<longrightarrow> tasks d' = tasks d) \<and>
   (err \<noteq> None \<and> (\<forall>ms m. b \<noteq> Breaks ms m) \<longrightarrow> tasks d' = tasks d) \<and>
   (err = None \<longrightarrow> tasks d' =
      map (\<lambda>r. if update_hit task r then update_row p task r else r) (tasks d))"
  using Task_Update_cases [OF assms] close_error_cases [of b] by auto

lemma update_row_expand:
  "(if update_hit task r then update_row p task r else r) =
   (if Task.ID r = Task.ID task \<and> Version r = Version task
    then r\<lparr>Title := Title task, Description := Task.Description task,
           Priority := Priority task, Status := Status task,
           Category := Category task, DueDate := timestamp0 p (DueDate task),
           UserID := UserID task, Version := Version task + 1\<rparr>
    else r)"
  by (simp add: update_hit_def update_row_def)

lemma Task_Update_stored:
  assumes "Task_Update p b task d = (None, task', d')"
  shows "\<exists>r \<in> set (tasks d'). Task.ID r = Task.ID task' \<and> Version r = Version task'"
proof -
  from Task_Update_cases [OF assms] have
    hit: "filter (update_hit task) (tasks d) \<noteq> []" and
    t': "task' = task\<lparr>Version := Version task + 1\<rparr>" and
    tab: "tasks d' = map (\<lambda>r. if update_hit task r then update_row p task r else r) (tasks d)"
    by auto
  from hit obtain r where r: "update_hit task r" "r \<in> set (tasks d)"
    by (auto simp: filter_empty_conv)
  with tab have "update_row p task r \<in> set (tasks d')"
    by force
  moreover have "Task.ID (update_row p task r) = Task.ID task'"
    "Version (update_row p task r) = Version task'"
    using r(1) t' by (simp_all add: update_row_def update_hit_def)
  ultimately show ?thesis by blast
qed

lemma Task_Update_conflict:
  assumes ms: "ms < timeout_ms" and no: "\<not> list_ex (update_hit task) (tasks d)"
  shows "Task_Update p (Responds ms) task d =
     (Some ErrEditConflict, task, log_stmt (Tasks_UPDATE (Task.ID task) (Version task)) d)"
proof -
  from no have f: "filter (update_hit task) (tasks d) = []"
    by (simp add: list_ex_iff filter_empty_conv)
  from no have
    o: "\<not> list_ex (\<lambda>r. update_hit task r \<and> Version r + 1 > integer_max) (tasks d)"
    by (auto simp: list_ex_iff)
  show ?thesis
    using ms f o by (simp add: Task_Update_def with_deadline_def sql_update_task_def map_if_no_hit)
qed

lemma Task_Update_breaks:
  assumes ms: "ms < timeout_ms" and hit: "list_ex (update_hit task) (tasks d)"
    and v: "Version task < integer_max"
  shows "fst (Task_Update p (Breaks ms m) task d) = Some (Backend m) \<and>
     fst (snd (Task_Update p (Breaks ms m) task d)) = task\<lparr>Version := Version task + 1\<rparr>"
proof -
  from hit obtain r rest where f: "filter (update_hit task) (tasks d) = r # rest"
    by (cases "filter (update_hit task) (tasks d)") (auto simp: list_ex_iff filter_empty_conv)
  then have "update_hit task r" using filter_hd_prop by fastforce
  then have vr: "Version r = Version task" by (simp add: update_hit_def)
  from v have
    o: "\<not> list_ex (\<lambda>r. update_hit task r \<and> Version r + 1 > integer_max) (tasks d)"
    by (auto simp: list_ex_iff update_hit_def)
  show ?thesis
    using ms f o vr by (simp add: Task_Update_def with_deadline_def sql_update_task_def)
qed

lemma Task_Update_seq_version:
  "Task_Update_seq p steps task d = Some (taskN, dN) \<Longrightarrow>
   Version taskN = Version task + int (length steps) \<and> Task.ID taskN = Task.ID task"
proof (induction steps arbitrary: task d)
  case Nil
  then show ?case by simp
next
  case (Cons s steps)
  obtain b edit where s: "s = (b, edit)" by (cases s)
  let ?t = "(edit task)\<lparr>ID := Task.ID task, Version := Version task\<rparr>"
  from Cons.prems s obtain task' d' where
    u: "Task_Update p b ?t d = (None, task', d')" and
    rest: "Task_Update_seq p steps task' d' = Some (taskN, dN)"
    by (auto split: prod.splits option.splits)
  from u have "task' = ?t\<lparr>Version := Version ?t + 1\<rparr>"
    using Task_Update_entity by blast
  then have "Version task' = Version task + 1" "Task.ID task' = Task.ID task" by simp_all
  with Cons.IH [OF rest] show ?case by simp
qed

text \<open>
  C1. Whatever the outcome, \<open>Update\<close> sends exactly one statement, the conditional
  \<open>UPDATE\<close> carrying the entity's id and its last-known version (so nothing is retried).
  A call that fails with \<open>ErrEditConflict\<close>, or that fails before the backend returned
  a row (every failure but the error of closing the result set), leaves the table as it
  was. When the backend answers in time and no row has both that id and that version,
  the call returns \<open>ErrEditConflict\<close>. On success every row with that id and version
  received all the mutable fields of the entity and \<open>version + 1\<close>, the entity's version
  is the previous one plus 1, and a row with the entity's id stores exactly that
  version. After N successful updates in a row the entity's version is the initial one
  plus N.
\<close>

theorem Task_Update_conditional_write:
  assumes "Task_Update p b task d = (err, task', d')"
  shows "queries d' = queries d @ [Tasks_UPDATE (Task.ID task) (Version task)] \<and>
    (err = Some ErrEditConflict \<longrightarrow> tasks d' = tasks d) \<and>
    (err \<noteq> None \<and> (\<forall>ms m. b \<noteq> Breaks ms m) \<longrightarrow> tasks d' = tasks d) \<and>
    ((\<exists>ms. b = Responds ms \<and> ms < timeout_ms) \<and>
     \<not> list_ex (\<lambda>r. Task.ID r = Task.ID task \<and> Version r = Version task) (tasks d)
       \<longrightarrow> err = Some ErrEditConflict) \<and>
    (err = None \<longrightarrow>
       Version task' = Version task + 1 \<and>
       tasks d' =
         map (\<lambda>r. if Task.ID r = Task.ID task \<and> Version r = Version task
                  then r\<lparr>Title := Title task, Description := Task.Description task,
                         Priority := Priority task, Status := Status task,
                         Category := Category task, DueDate := timestamp0 p (DueDate task),
                         UserID := UserID task, Version := Version task + 1\<rparr>
                  else r) (tasks d) \<and>
       (\<exists>r \<in> set (tasks d'). Task.ID r = Task.ID task' \<and> Version r = Version task')) \<and>
    (\<forall>steps taskN dN. Task_Update_seq p steps task d = Some (taskN, dN)
       \<longrightarrow> Version taskN = Version task + int (length steps))"
proof -
  have hit: "(\<lambda>r. Task.ID r = Task.ID task \<and> Version r = Version task) = update_hit task"
    by (auto simp: update_hit_def)
  have 1: "queries d' = queries d @ [Tasks_UPDATE (Task.ID task) (Version task)]"
    using assms by (rule Task_Update_queries)
  have 2: "err = Some ErrEditConflict \<longrightarrow> tasks d' = tasks d"
    using Task_Update_tables [OF assms] by blast
  have 8: "err \<noteq> None \<and> (\<forall>ms m. b \<noteq> Breaks ms m) \<longrightarrow> tasks d' = tasks d"
    using Task_Update_tables [OF assms] by blast
  have 3: "(\<exists>ms. b = Responds ms \<and> ms < timeout_ms) \<and>
     \<not> list_ex (\<lambda>r. Task.ID r = Task.ID task \<and> Version r = Version task) (tasks d)
       \<longrightarrow> err = Some ErrEditConflict"
    unfolding hit using assms Task_Update_conflict by fastforce
  have 4: "err = None \<longrightarrow> Version task' = Version task + 1"
  proof
    assume "err = None"
    with assms have "task' = task\<lparr>Version := Version task + 1\<rparr>"
      using Task_Update_success by blast
    then show "Version task' = Version task + 1" by simp
  qed
  have 5: "err = None \<longrightarrow> tasks d' =
         map (\<lambda>r. if Task.ID r = Task.ID task \<and> Version r = Version task
                  then r\<lparr>Title := Title task, Description := Task.Description task,
                         Priority := Priority task, Status := Status task,
                         Category := Category task, DueDate := timestamp0 p (DueDate task),
                         UserID := UserID task, Version := Version task + 1\<rparr>
                  else r) (tasks d)"
    using Task_Update_tables [OF assms] by (simp add: update_row_expand)
  have 6: "err = None \<longrightarrow>
      (\<exists>r \<in> set (tasks d'). Task.ID r = Task.ID task' \<and> Version r = Version task')"
    using assms Task_Update_stored by blast
  have 7: "\<forall>steps taskN dN. Task_Update_seq p steps task d = Some (taskN, dN)
       \<longrightarrow> Version taskN = Version task + int (length steps)"
    using Task_Update_seq_version by blast
  from 4 5 6 have 9: "err = None \<longrightarrow>
       Version task' = Version task + 1 \<and>
       tasks d' =
         map (\<lambda>r. if Task.ID r = Task.ID task \<and> Version r = Version task
                  then r\<lparr>Title := Title task, Description := Task.Description task,
                         Priority := Priority task, Status := Status task,
                         Category := Category task, DueDate := timestamp0 p (DueDate task),
                         UserID := UserID task, Version := Version task + 1\<rparr>
                  else r) (tasks d) \<and>
       (\<exists>r \<in> set (tasks d'). Task.ID r = Task.ID task' \<and> Version r = Version task')"
    by simp
  from 1 2 8 3 9 7 show ?thesis by blast
qed

theorem Task_Update_conditional_write_witness:
  "fst (Task_Update pg_sample (Responds 5) (row_A\<lparr>Title := ''A2''\<rparr>) db_A) = None \<and>
   Version (fst (snd (Task_Update pg_sample (Responds 5) (row_A\<lparr>Title := ''A2''\<rparr>) db_A))) = 2 \<and>
   tasks (snd (snd (Task_Update pg_sample (Responds 5) (row_A\<lparr>Title := ''A2''\<rparr>) db_A))) =
     [row_A\<lparr>Title := ''A2'', Version := 2\<rparr>] \<and>
   queries (snd (snd (Task_Update pg_sample (Responds 5) (row_A\<lparr>Title := ''A2''\<rparr>) db_A))) =
     [Tasks_INSERT, Tasks_UPDATE 1 1] \<and>
   fst (Task_Update pg_sample (Responds 5) (row_A\<lparr>Version := 7\<rparr>) db_A) = Some ErrEditConflict \<and>
   tasks (snd (snd (Task_Update pg_sample (Responds 5) (row_A\<lparr>Version := 7\<rparr>) db_A))) = [row_A] \<and>
   map_option (Version \<circ> fst)
     (Task_Update_seq pg_sample
        [(Responds 5, \<lambda>t. t\<lparr>Title := ''A2''\<rparr>), (Responds 9, \<lambda>t. t\<lparr>Status := ''done''\<rparr>)]
        row_A db_A) = Some 3"
  using Task_Update_conditional_write [of pg_sample "Responds 5" "row_A\<lparr>Title := ''A2''\<rparr>" db_A
      "fst (Task_Update pg_sample (Responds 5) (row_A\<lparr>Title := ''A2''\<rparr>) db_A)"
      "fst (snd (Task_Update pg_sample (Responds 5) (row_A\<lparr>Title := ''A2''\<rparr>) db_A))"
      "snd (snd (Task_Update pg_sample (Responds 5) (row_A\<lparr>Title := ''A2''\<rparr>) db_A))"]
  by (simp add: Task_Update_def with_deadline_def sql_update_task_def update_hit_def
      update_row_def row_A_def task_A_def db_A_def timeout_ms_def integer_max_def
      pg_sample_def timestamp0_def midnight_def clock_sample_def log_stmt_def)

text \<open>
  C10, as the spec states it, fails: the backend runs the \<open>UPDATE\<close> and returns the
  row, \<open>Scan\<close> writes the returned version 2 into the caller's entity, and closing the
  result set then fails. \<open>Update\<close> returns that error, and the entity, given with
  version 1, is left with version 2.
\<close>

theorem Task_Update_failure_counterexample:
  "Version (row_A\<lparr>Title := ''A2''\<rparr>) = 1 \<and>
   fst (Task_Update pg_sample (Breaks 5 ''driver: bad connection'') (row_A\<lparr>Title := ''A2''\<rparr>)
          db_A) = Some (Backend ''driver: bad connection'') \<and>
   fst (snd (Task_Update pg_sample (Breaks 5 ''driver: bad connection'')
          (row_A\<lparr>Title := ''A2''\<rparr>) db_A)) = row_A\<lparr>Title := ''A2'', Version := 2\<rparr> \<and>
   Version (fst (snd (Task_Update pg_sample (Breaks 5 ''driver: bad connection'')
          (row_A\<lparr>Title := ''A2''\<rparr>) db_A))) = 2"
  by (simp add: Task_Update_def with_deadline_def sql_update_task_def update_hit_def
      update_row_def row_A_def task_A_def db_A_def timeout_ms_def integer_max_def
      log_stmt_def)

text \<open>
  C10, amended. A failed \<open>Update\<close> fails with \<open>ErrEditConflict\<close> or with an error of the
  backend. When it fails with \<open>ErrEditConflict\<close>, or with an error that arose before the
  backend returned a row (any failure of a backend that does not break on closing the
  result set), it returns the caller's entity exactly as it was given. Whenever the
  entity is changed, only the field \<open>Version\<close> is, to the previous value plus 1; a
  stored row then had the entity's id and version, and the call either succeeded or
  failed with the error of closing the result set after the row was read. That last
  case does occur, for every entity that matches a stored row. A successful call
  changes \<open>Version\<close> (to the previous value plus 1) and nothing else.
\<close>

theorem Task_Update_failure_leaves_entity:
  assumes "Task_Update p b task d = (err, task', d')"
  shows "(err \<noteq> None \<longrightarrow> err = Some ErrEditConflict \<or> (\<exists>m. err = Some (Backend m))) \<and>
    (err = Some ErrEditConflict \<longrightarrow> task' = task) \<and>
    (err \<noteq> None \<and> (\<forall>ms m. b \<noteq> Breaks ms m) \<longrightarrow> task' = task) \<and>
    (task' \<noteq> task \<longrightarrow>
       task' = task\<lparr>Version := Version task + 1\<rparr> \<and>
       list_ex (\<lambda>r. Task.ID r = Task.ID task \<and> Version r = Version task) (tasks d) \<and>
       (err = None \<or> (\<exists>ms m. b = Breaks ms m \<and> err = Some (Backend m)))) \<and>
    (err = None \<longrightarrow> task' = task\<lparr>Version := Version task + 1\<rparr>) \<and>
    (ms < timeout_ms \<and> Version task < integer_max \<and>
     list_ex (\<lambda>r. Task.ID r = Task.ID task \<and> Version r = Version task) (tasks d) \<longrightarrow>
       fst (Task_Update p (Breaks ms m) task d) = Some (Backend m) \<and>
       fst (snd (Task_Update p (Breaks ms m) task d)) =
         task\<lparr>Version := Version task + 1\<rparr>)"
proof -
  have hit: "(\<lambda>r. Task.ID r = Task.ID task \<and> Version r = Version task) = update_hit task"
    by (auto simp: update_hit_def)
  have "ms < timeout_ms \<and> Version task < integer_max \<and>
     list_ex (\<lambda>r. Task.ID r = Task.ID task \<and> Version r = Version task) (tasks d) \<longrightarrow>
       fst (Task_Update p (Breaks ms m) task d) = Some (Backend m) \<and>
       fst (snd (Task_Update p (Breaks ms m) task d)) =
         task\<lparr>Version := Version task + 1\<rparr>"
    unfolding hit using Task_Update_breaks by blast
  moreover have "task' \<noteq> task \<longrightarrow>
      list_ex (\<lambda>r. Task.ID r = Task.ID task \<and> Version r = Version task) (tasks d)"
    unfolding hit using Task_Update_changed [OF assms] by blast
  ultimately show ?thesis using Task_Update_entity [OF assms] by blast
qed

theorem Task_Update_failure_leaves_entity_witness:
  "Task_Update pg_sample (Fails ''connection refused'') (row_A\<lparr>Title := ''A2''\<rparr>) db_A =
     (Some (Backend ''connection refused''), row_A\<lparr>Title := ''A2''\<rparr>,
      log_stmt (Tasks_UPDATE 1 1) db_A) \<and>
   Task_Update pg_sample Hangs (row_A\<lparr>Title := ''A2''\<rparr>) db_A =
     (Some (Backend ''context deadline exceeded''), row_A\<lparr>Title := ''A2''\<rparr>,
      log_stmt (Tasks_UPDATE 1 1) db_A) \<and>
   Task_Update pg_sample (Responds 5) (row_A\<lparr>Version := 7\<rparr>) db_A =
     (Some ErrEditConflict, row_A\<lparr>Version := 7\<rparr>, log_stmt (Tasks_UPDATE 1 7) db_A) \<and>
   Task_Update pg_sample (Breaks 5 ''bad connection'') (row_A\<lparr>Version := 7\<rparr>) db_A =
     (Some ErrEditConflict, row_A\<lparr>Version := 7\<rparr>, log_stmt (Tasks_UPDATE 1 7) db_A) \<and>
   fst (Task_Update pg_sample (Responds 5) (row_A\<lparr>Title := ''A2''\<rparr>) db_A) = None \<and>
   fst (snd (Task_Update pg_sample (Responds 5) (row_A\<lparr>Title := ''A2''\<rparr>) db_A)) =
     row_A\<lparr>Title := ''A2'', Version := 2\<rparr>"
  using Task_Update_failure_leaves_entity [of pg_sample "Fails ''connection refused''"
      "row_A\<lparr>Title := ''A2''\<rparr>" db_A "Some (Backend ''connection refused'')"
      "row_A\<lparr>Title := ''A2''\<rparr>" "log_stmt (Tasks_UPDATE 1 1) db_A" 5 "[]"]
  by (simp add: Task_Update_def with_deadline_def sql_update_task_def update_hit_def
      update_row_def row_A_def task_A_def db_A_def timeout_ms_def integer_max_def
      log_stmt_def)

subsection \<open>Insertion sort under an arbitrary order\<close>

lemma mset_insort_by: "mset (insort_by le x xs) = add_mset x (mset xs)"
  by (induction xs) auto

lemma mset_sort_by: "mset (sort_by le xs) = mset xs"
  by (induction xs) (auto simp: sort_by_def mset_insort_by)

lemma set_insort_by: "set (insort_by le x xs) = insert x (set xs)"
  by (induction xs) auto

lemma length_sort_by: "length (sort_by le xs) = length xs"
  using mset_sort_by [of le xs] by (metis size_mset)

lemma sorted_insort_by:
  assumes tot: "\<And>a b. le a b \<or> le b a" and tr: "\<And>a b c. le a b \<Longrightarrow> le b c \<Longrightarrow> le a c"
  shows "sorted_wrt le xs \<Longrightarrow> sorted_wrt le (insort_by le x xs)"
proof (induction xs)
  case Nil
  then show ?case by simp
next
  case (Cons y ys)
  show ?case
  proof (cases "le x y")
    case True
    then show ?thesis using Cons.prems tr by auto
  next
    case False
    then have "le y x" using tot by blast
    then show ?thesis using Cons False by (auto simp: set_insort_by)
  qed
qed

lemma sorted_sort_by:
  assumes tot: "\<And>a b. le a b \<or> le b a" and tr: "\<And>a b c. le a b \<Longrightarrow> le b c \<Longrightarrow> le a c"
  shows "sorted_wrt le (sort_by le xs)"
proof (induction xs)
  case Nil
  show ?case by (simp add: sort_by_def)
next
  case (Cons x xs)
  have "sort_by le (x # xs) = insort_by le x (sort_by le xs)" by (simp add: sort_by_def)
  with Cons show ?case using sorted_insort_by [of le, OF tot tr] by simp
qed

text \<open>Two sorted lists of the same rows are equal when the order tells the rows apart.\<close>

lemma sorted_wrt_unique:
  assumes "sorted_wrt le xs" "sorted_wrt le ys" "mset xs = mset ys"
    and anti: "\<And>a b. a \<in> set xs \<Longrightarrow> b \<in> set xs \<Longrightarrow> le a b \<Longrightarrow> le b a \<Longrightarrow> a = b"
  shows "xs = ys"
  using assms
proof (induction xs arbitrary: ys)
  case Nil
  then show ?case by simp
next
  case (Cons x xs)
  then obtain y ys' where ys: "ys = y # ys'" by (cases ys) auto
  have sets: "set (x # xs) = set ys" using Cons.prems(3) by (metis set_mset_mset)
  have "x = y"
  proof (rule ccontr)
    assume ne: "x \<noteq> y"
    then have "x \<in> set ys'" using sets ys by auto
    then have 1: "le y x" using Cons.prems(2) ys by auto
    from ne have "y \<in> set xs" using sets ys by auto
    then have 2: "le x y" using Cons.prems(1) by auto
    have "y \<in> set (x # xs)" using sets ys by auto
    with 1 2 Cons.prems(4) [of x y] show False using ne by auto
  qed
  moreover have "xs = ys'"
  proof (rule Cons.IH)
    show "sorted_wrt le xs" using Cons.prems(1) by simp
    show "sorted_wrt le ys'" using Cons.prems(2) ys by simp
    show "mset xs = mset ys'" using Cons.prems(3) ys \<open>x = y\<close> by simp
    show "\<And>a b. a \<in> set xs \<Longrightarrow> b \<in> set xs \<Longrightarrow> le a b \<Longrightarrow> le b a \<Longrightarrow> a = b"
      using Cons.prems(4) by auto
  qed
  ultimately show ?case using ys by simp
qed

lemma order_by_total: "order_by key dir ident a b \<or> order_by key dir ident b a"
  by (auto simp: order_by_def)

lemma order_by_trans:
  "order_by key dir ident a b \<Longrightarrow> order_by key dir ident b c \<Longrightarrow> order_by key dir ident a c"
  by (auto simp: order_by_def split: if_splits)

lemma order_by_antisym:
  "order_by key dir ident a b \<Longrightarrow> order_by key dir ident b a \<Longrightarrow> ident a = ident b"
  by (auto simp: order_by_def split: if_splits)

lemma sort_by_order_by_sorted:
  "sorted_wrt (order_by key dir ident) (sort_by (order_by key dir ident) xs)"
  by (rule sorted_sort_by [OF order_by_total]) (rule order_by_trans)

lemma sort_by_order_by_deterministic:
  assumes "mset xs = mset ys" "distinct (map ident xs)"
  shows "sort_by (order_by key dir ident) xs = sort_by (order_by key dir ident) ys"
proof (rule sorted_wrt_unique)
  show "sorted_wrt (order_by key dir ident) (sort_by (order_by key dir ident) xs)"
    by (rule sort_by_order_by_sorted)
  show "sorted_wrt (order_by key dir ident) (sort_by (order_by key dir ident) ys)"
    by (rule sort_by_order_by_sorted)
  show "mset (sort_by (order_by key dir ident) xs) = mset (sort_by (order_by key dir ident) ys)"
    using assms(1) by (simp add: mset_sort_by)
next
  fix a b
  assume ab: "a \<in> set (sort_by (order_by key dir ident) xs)"
    "b \<in> set (sort_by (order_by key dir ident) xs)"
    and le: "order_by key dir ident a b" "order_by key dir ident b a"
  have "set (sort_by (order_by key dir ident) xs) = set xs"
    using mset_sort_by [of "order_by key dir ident" xs] by (metis set_mset_mset)
  with ab have "a \<in> set xs" "b \<in> set xs" by simp_all
  moreover have "ident a = ident b" using le by (rule order_by_antisym)
  ultimately show "a = b" using assms(2) by (meson distinct_map inj_onD)
qed

subsection \<open>The list query and its metadata\<close>

lemma scan_rows_eq:
  "scan_rows rows (n0, rs0) = ((if rows = [] then n0 else fst (last rows)), rs0 @ map snd rows)"
  by (induction rows arbitrary: n0 rs0) auto

lemma scan_rows_counted:
  "scan_rows (map (\<lambda>r. (n, r)) rs) (0, []) = ((if rs = [] then 0 else n), rs)"
  by (simp add: scan_rows_eq last_map comp_def)

lemma calculateMetadata_lastPage:
  assumes "records \<noteq> 0"
  shows "lastPage (calculateMetadata records page page_size) =
     \<lceil>real_of_int records / real_of_int page_size\<rceil>"
proof -
  have "\<lfloor>real_of_int (- records) / real_of_int page_size\<rfloor> = (- records) div page_size"
    by (rule floor_divide_of_int_eq)
  then have "\<lceil>real_of_int records / real_of_int page_size\<rceil> = - ((- records) div page_size)"
    by (simp add: ceiling_def)
  with assms show ?thesis by (simp add: calculateMetadata_def)
qed

lemma select_page_scan:
  "select_page le lmt ofs matching = Inr rows \<Longrightarrow>
   scan_rows rows (0, []) =
     ((if take (nat lmt) (drop (nat ofs) (sort_by le matching)) = [] then 0
       else int (length matching)),
      take (nat lmt) (drop (nat ofs) (sort_by le matching)))"
  by (auto simp: select_page_def scan_rows_counted split: if_splits)

lemma window_nonempty:
  "0 \<le> lmt \<Longrightarrow> 0 \<le> ofs \<Longrightarrow>
   (take (nat lmt) (drop (nat ofs) (sort_by le matching)) \<noteq> []) =
   (0 < lmt \<and> ofs < int (length matching))"
  by (auto simp: length_sort_by)

lemma Task_GetAll_success:
  assumes "Task_GetAll p b title f d = (Inr (ts, md), d')"
  shows "\<exists>col key. sortColumn f = Some col \<and> tasks_column p col = Some key \<and>
     0 \<le> limit f \<and> 0 \<le> offset f \<and>
     ts = take (nat (limit f)) (drop (nat (offset f))
            (sort_by (order_by key (sortDirection f) Task.ID)
               (filter (tasks_where p title) (tasks d)))) \<and>
     md = calculateMetadata
            (if ts = [] then 0 else int (length (filter (tasks_where p title) (tasks d))))
            (Page f) (PageSize f) \<and>
     d' = log_stmt (Tasks_SELECT_ALL col (sortDirection f) title (limit f) (offset f)) d"
proof -
  from assms obtain col where col: "sortColumn f = Some col"
    by (auto simp: Task_GetAll_def split: option.splits)
  let ?q = "Tasks_SELECT_ALL col (sortDirection f) title (limit f) (offset f)"
  from assms col obtain rows where
    run: "sql_select_tasks p col (sortDirection f) title (limit f) (offset f) (log_stmt ?q d)
            = (Inr rows, d')"
    and res: "(ts, md) = (case scan_rows rows (0, []) of
        (records, ts) \<Rightarrow> (ts, calculateMetadata records (Page f) (PageSize f)))"
    by (auto simp: Task_GetAll_def with_deadline_def
        split: backend.splits if_splits prod.splits sum.splits)
  from run obtain key where key: "tasks_column p col = Some key"
    and page: "select_page (order_by key (sortDirection f) Task.ID) (limit f) (offset f)
        (filter (tasks_where p title) (tasks d)) = Inr rows"
    and d': "d' = log_stmt ?q d"
    by (auto simp: sql_select_tasks_def split: option.splits)
  from page have nonneg: "0 \<le> limit f" "0 \<le> offset f"
    by (auto simp: select_page_def split: if_splits)
  from res select_page_scan [OF page] col key d' nonneg show ?thesis by auto
qed

lemma Category_GetAll_success:
  assumes "Category_GetAll p b f d = (Inr (cs, md), d')"
  shows "\<exists>col key. sortColumn f = Some col \<and> categories_column p col = Some key \<and>
     0 \<le> limit f \<and> 0 \<le> offset f \<and>
     cs = take (nat (limit f)) (drop (nat (offset f))
            (sort_by (order_by key (sortDirection f) Category.ID) (categories d))) \<and>
     md = calculateMetadata (if cs = [] then 0 else int (length (categories d)))
            (Page f) (PageSize f) \<and>
     d' = log_stmt (Categories_SELECT_ALL col (sortDirection f) (limit f) (offset f)) d"
proof -
  from assms obtain col where col: "sortColumn f = Some col"
    by (auto simp: Category_GetAll_def split: option.splits)
  let ?q = "Categories_SELECT_ALL col (sortDirection f) (limit f) (offset f)"
  from assms col obtain rows where
    run: "sql_select_categories p col (sortDirection f) (limit f) (offset f) (log_stmt ?q d)
            = (Inr rows, d')"
    and res: "(cs, md) = (case scan_rows rows (0, []) of
        (records, cs) \<Rightarrow> (cs, calculateMetadata records (Page f) (PageSize f)))"
    by (auto simp: Category_GetAll_def with_deadline_def
        split: backend.splits if_splits prod.splits sum.splits)
  from run obtain key where key: "categories_column p col = Some key"
    and page: "select_page (order_by key (sortDirection f) Category.ID) (limit f) (offset f)
        (categories d) = Inr rows"
    and d': "d' = log_stmt ?q d"
    by (auto simp: sql_select_categories_def split: option.splits)
  from page have nonneg: "0 \<le> limit f" "0 \<le> offset f"
    by (auto simp: select_page_def split: if_splits)
  from res select_page_scan [OF page] col key d' nonneg show ?thesis by auto
qed

lemma page_metadata:
  assumes nn: "0 \<le> limit f" "0 \<le> offset f"
    and ts: "ts = take (nat (limit f)) (drop (nat (offset f)) (sort_by le matching))"
    and md: "md = calculateMetadata (if ts = [] then 0 else int (length matching))
               (Page f) (PageSize f)"
  shows "((ts \<noteq> []) = (0 < limit f \<and> offset f < int (length matching))) \<and>
    (ts \<noteq> [] \<longrightarrow>
       totalRecords md = int (length matching) \<and> firstPage md = 1 \<and>
       lastPage md = \<lceil>real (length matching) / real_of_int (PageSize f)\<rceil> \<and>
       currentPage md = Page f \<and> pageSize md = PageSize f) \<and>
    (ts = [] \<longrightarrow> md = no_results)"
proof -
  have a: "(ts \<noteq> []) = (0 < limit f \<and> offset f < int (length matching))"
    unfolding ts using window_nonempty [OF nn] by simp
  have b: "ts = [] \<longrightarrow> md = no_results"
    using md by (simp add: calculateMetadata_def)
  have c: "ts \<noteq> [] \<longrightarrow>
       totalRecords md = int (length matching) \<and> firstPage md = 1 \<and>
       lastPage md = \<lceil>real (length matching) / real_of_int (PageSize f)\<rceil> \<and>
       currentPage md = Page f \<and> pageSize md = PageSize f"
  proof
    assume ne: "ts \<noteq> []"
    then have len: "int (length matching) \<noteq> 0" using a nn by auto
    have m: "md = calculateMetadata (int (length matching)) (Page f) (PageSize f)"
      using md ne by simp
    have "lastPage md = \<lceil>real_of_int (int (length matching)) / real_of_int (PageSize f)\<rceil>"
      unfolding m using len by (rule calculateMetadata_lastPage)
    then show "totalRecords md = int (length matching) \<and> firstPage md = 1 \<and>
       lastPage md = \<lceil>real (length matching) / real_of_int (PageSize f)\<rceil> \<and>
       currentPage md = Page f \<and> pageSize md = PageSize f"
      using m len by (simp add: calculateMetadata_def)
  qed
  from a b c show ?thesis by blast
qed

lemma Task_GetAll_empty:
  assumes "ms < timeout_ms" "Sort f \<in> set (SortSafelist f)"
    "tasks_column p (strip_dash (Sort f)) \<noteq> None" "0 \<le> limit f" "0 \<le> offset f"
    "filter (tasks_where p title) (tasks d) = []"
  shows "fst (Task_GetAll p (Responds ms) title f d) = Inr ([], no_results)"
  using assms
  by (auto simp: Task_GetAll_def sortColumn_def with_deadline_def sql_select_tasks_def
      select_page_def sort_by_def calculateMetadata_def)

subsection \<open>Sample data, evaluated\<close>

lemmas store_defs =
  Task_Insert_def Task_Get_def Task_Delete_def Category_Insert_def Category_Get_def
  Category_Update_def Category_Delete_def without_deadline_def with_deadline_def timeout_ms_def
  sql_insert_task_def sql_select_task_def sql_delete_task_def sql_insert_category_def
  sql_select_category_def sql_update_category_def sql_delete_category_def
  bigint_max_def integer_max_def timestamp0_def log_stmt_def Let_def

lemmas list_defs =
  Task_GetAll_def Category_GetAll_def sortColumn_def sortDirection_def strip_dash_def
  limit_def offset_def sql_select_tasks_def sql_select_categories_def tasks_column_def
  categories_column_def select_page_def sort_by_def order_by_def int_key_def text_key_def
  time_key_def tasks_where_def fts_match_def ts_lexemes_def simple_dict_def
  calculateMetadata_def no_results_def
  with_deadline_def timeout_ms_def log_stmt_def tasks_SortSafelist_def
  categories_SortSafelist_def

lemmas sample_defs =
  task_A_def task_B_def row_A_def empty_db_def db_A_def db_cats_def cat_Work_def cat_Home_def
  midnight_def clock_sample_def

lemma db_AB_eq:
  "db_AB p =
     \<lparr>tasks = [task_A\<lparr>ID := 1, CreatedAt := clock_sample, UserID := 1, Version := 1\<rparr>,
               task_B\<lparr>ID := 2, CreatedAt := clock_sample, UserID := 2, Version := 1\<rparr>],
      tasks_id_seq = 3, tasks_user_id_seq = 3, categories = [], categories_id_seq = 1,
      queries = [Tasks_INSERT, Tasks_INSERT]\<rparr>"
  by (simp add: db_AB_def store_defs sample_defs)

subsection \<open>The metadata of a page\<close>

text \<open>
  C3, where \<open>GetAll\<close> departs from it. Two tasks are stored and both match the empty
  filter. Page 1 of size 20 lists them with \<open>totalRecords = 2\<close>: the count comes with
  every row of the reply. Page 2 of size 20 succeeds with the empty list and with
  every metadata field zero, \<open>totalRecords = 0\<close> among them, although two rows match:
  the reply has no row, the loop never scans the count the query computed, and
  \<open>totalRecords\<close> keeps the 0 it was declared with, which \<open>calculateMetadata\<close> reads as
  no result at all.
\<close>

theorem GetAll_totalRecords_lost:
  "length (filter (tasks_where pg_sample []) (tasks (db_AB pg_sample))) = 2 \<and>
   fst (Task_GetAll pg_sample (Responds 5) []
          \<lparr>Page = 1, PageSize = 20, Sort = ''id'', SortSafelist = tasks_SortSafelist\<rparr>
          (db_AB pg_sample)) =
     Inr ([task_A\<lparr>ID := 1, CreatedAt := clock_sample, UserID := 1, Version := 1\<rparr>,
           task_B\<lparr>ID := 2, CreatedAt := clock_sample, UserID := 2, Version := 1\<rparr>],
          \<lparr>currentPage = 1, pageSize = 20, firstPage = 1, lastPage = 1, totalRecords = 2\<rparr>) \<and>
   fst (Task_GetAll pg_sample (Responds 5) []
          \<lparr>Page = 2, PageSize = 20, Sort = ''id'', SortSafelist = tasks_SortSafelist\<rparr>
          (db_AB pg_sample)) =
     Inr ([], \<lparr>currentPage = 0, pageSize = 0, firstPage = 0, lastPage = 0,
               totalRecords = 0\<rparr>)"
  by (simp add: db_AB_eq list_defs sample_defs)

text \<open>
  In general, a successful \<open>GetAll\<close> sends one query. Its list is non-empty exactly
  when the window holds a row (\<open>0 < limit\<close> and \<open>offset < r\<close>, for \<open>r\<close> rows matching the
  filter). When the list is non-empty, \<open>totalRecords = r\<close>, \<open>firstPage = 1\<close>,
  \<open>lastPage = ceil(r / pageSize)\<close>, and the current page and page size are the
  requested ones. When the list is empty (no row matches, or the page lies beyond the
  last row) every metadata field is zero. With no matching row the call succeeds with
  the empty list. The same holds for categories, where every row matches.
\<close>

theorem GetAll_metadata:
  "(Task_GetAll p b title f d = (Inr (ts, md), d') \<longrightarrow>
      ((ts \<noteq> []) =
         (0 < limit f \<and> offset f < int (length (filter (tasks_where p title) (tasks d))))) \<and>
      (ts \<noteq> [] \<longrightarrow>
         totalRecords md = int (length (filter (tasks_where p title) (tasks d))) \<and>
         firstPage md = 1 \<and>
         lastPage md = \<lceil>real (length (filter (tasks_where p title) (tasks d)))
                          / real_of_int (PageSize f)\<rceil> \<and>
         currentPage md = Page f \<and> pageSize md = PageSize f) \<and>
      (ts = [] \<longrightarrow> md = no_results) \<and>
      (\<exists>col. queries d' =
         queries d @ [Tasks_SELECT_ALL col (sortDirection f) title (limit f) (offset f)])) \<and>
   (Category_GetAll p b f d = (Inr (cs, md2), d2) \<longrightarrow>
      ((cs \<noteq> []) = (0 < limit f \<and> offset f < int (length (categories d)))) \<and>
      (cs \<noteq> [] \<longrightarrow>
         totalRecords md2 = int (length (categories d)) \<and>
         firstPage md2 = 1 \<and>
         lastPage md2 = \<lceil>real (length (categories d)) / real_of_int (PageSize f)\<rceil> \<and>
         currentPage md2 = Page f \<and> pageSize md2 = PageSize f) \<and>
      (cs = [] \<longrightarrow> md2 = no_results) \<and>
      (\<exists>col. queries d2 =
         queries d @ [Categories_SELECT_ALL col (sortDirection f) (limit f) (offset f)])) \<and>
   (ms < timeout_ms \<and> Sort f \<in> set (SortSafelist f) \<and>
    tasks_column p (strip_dash (Sort f)) \<noteq> None \<and> 0 \<le> limit f \<and> 0 \<le> offset f \<and>
    filter (tasks_where p title) (tasks d) = [] \<longrightarrow>
      fst (Task_GetAll p (Responds ms) title f d) = Inr ([], no_results))"
proof -
  have t: "Task_GetAll p b title f d = (Inr (ts, md), d') \<longrightarrow>
      ((ts \<noteq> []) =
         (0 < limit f \<and> offset f < int (length (filter (tasks_where p title) (tasks d))))) \<and>
      (ts \<noteq> [] \<longrightarrow>
         totalRecords md = int (length (filter (tasks_where p title) (tasks d))) \<and>
         firstPage md = 1 \<and>
         lastPage md = \<lceil>real (length (filter (tasks_where p title) (tasks d)))
                          / real_of_int (PageSize f)\<rceil> \<and>
         currentPage md = Page f \<and> pageSize md = PageSize f) \<and>
      (ts = [] \<longrightarrow> md = no_results) \<and>
      (\<exists>col. queries d' =
         queries d @ [Tasks_SELECT_ALL col (sortDirection f) title (limit f) (offset f)])"
  proof
    assume "Task_GetAll p b title f d = (Inr (ts, md), d')"
    from Task_GetAll_success [OF this] obtain col key where
      k: "0 \<le> limit f" "0 \<le> offset f"
      "ts = take (nat (limit f)) (drop (nat (offset f))
            (sort_by (order_by key (sortDirection f) Task.ID)
               (filter (tasks_where p title) (tasks d))))"
      "md = calculateMetadata
            (if ts = [] then 0 else int (length (filter (tasks_where p title) (tasks d))))
            (Page f) (PageSize f)"
      "d' = log_stmt (Tasks_SELECT_ALL col (sortDirection f) title (limit f) (offset f)) d"
      by blast
    from page_metadata [OF k(1-4)] k(5) show
      "((ts \<noteq> []) =
         (0 < limit f \<and> offset f < int (length (filter (tasks_where p title) (tasks d))))) \<and>
      (ts \<noteq> [] \<longrightarrow>
         totalRecords md = int (length (filter (tasks_where p title) (tasks d))) \<and>
         firstPage md = 1 \<and>
         lastPage md = \<lceil>real (length (filter (tasks_where p title) (tasks d)))
                          / real_of_int (PageSize f)\<rceil> \<and>
         currentPage md = Page f \<and> pageSize md = PageSize f) \<and>
      (ts = [] \<longrightarrow> md = no_results) \<and>
      (\<exists>col. queries d' =
         queries d @ [Tasks_SELECT_ALL col (sortDirection f) title (limit f) (offset f)])"
      by auto
  qed
  have c: "Category_GetAll p b f d = (Inr (cs, md2), d2) \<longrightarrow>
      ((cs \<noteq> []) = (0 < limit f \<and> offset f < int (length (categories d)))) \<and>
      (cs \<noteq> [] \<longrightarrow>
         totalRecords md2 = int (length (categories d)) \<and>
         firstPage md2 = 1 \<and>
         lastPage md2 = \<lceil>real (length (categories d)) / real_of_int (PageSize f)\<rceil> \<and>
         currentPage md2 = Page f \<and> pageSize md2 = PageSize f) \<and>
      (cs = [] \<longrightarrow> md2 = no_results) \<and>
      (\<exists>col. queries d2 =
         queries d @ [Categories_SELECT_ALL col (sortDirection f) (limit f) (offset f)])"
  proof
    assume "Category_GetAll p b f d = (Inr (cs, md2), d2)"
    from Category_GetAll_success [OF this] obtain col key where
      k: "0 \<le> limit f" "0 \<le> offset f"
      "cs = take (nat (limit f)) (drop (nat (offset f))
            (sort_by (order_by key (sortDirection f) Category.ID) (categories d)))"
      "md2 = calculateMetadata (if cs = [] then 0 else int (length (categories d)))
            (Page f) (PageSize f)"
      "d2 = log_stmt (Categories_SELECT_ALL col (sortDirection f) (limit f) (offset f)) d"
      by blast
    from page_metadata [OF k(1-4)] k(5) show
      "((cs \<noteq> []) = (0 < limit f \<and> offset f < int (length (categories d)))) \<and>
      (cs \<noteq> [] \<longrightarrow>
         totalRecords md2 = int (length (categories d)) \<and>
         firstPage md2 = 1 \<and>
         lastPage md2 = \<lceil>real (length (categories d)) / real_of_int (PageSize f)\<rceil> \<and>
         currentPage md2 = Page f \<and> pageSize md2 = PageSize f) \<and>
      (cs = [] \<longrightarrow> md2 = no_results) \<and>
      (\<exists>col. queries d2 =
         queries d @ [Categories_SELECT_ALL col (sortDirection f) (limit f) (offset f)])"
      by auto
  qed
  have e: "ms < timeout_ms \<and> Sort f \<in> set (SortSafelist f) \<and>
    tasks_column p (strip_dash (Sort f)) \<noteq> None \<and> 0 \<le> limit f \<and> 0 \<le> offset f \<and>
    filter (tasks_where p title) (tasks d) = [] \<longrightarrow>
      fst (Task_GetAll p (Responds ms) title f d) = Inr ([], no_results)"
    using Task_GetAll_empty by blast
  from t c e show ?thesis by blast
qed

theorem GetAll_metadata_witness:
  "Task_GetAll pg_sample (Responds 5) []
      \<lparr>Page = 2, PageSize = 1, Sort = ''id'', SortSafelist = tasks_SortSafelist\<rparr>
      (db_AB pg_sample) =
     (Inr ([task_B\<lparr>ID := 2, CreatedAt := clock_sample, UserID := 2, Version := 1\<rparr>],
           \<lparr>currentPage = 2, pageSize = 1, firstPage = 1, lastPage = 2, totalRecords = 2\<rparr>),
      log_stmt (Tasks_SELECT_ALL ''id'' ''ASC'' [] 1 1) (db_AB pg_sample)) \<and>
   length (filter (tasks_where pg_sample []) (tasks (db_AB pg_sample))) = 2 \<and>
   Category_GetAll pg_sample (Responds 5)
      \<lparr>Page = 1, PageSize = 20, Sort = ''-name'', SortSafelist = categories_SortSafelist\<rparr>
      db_cats =
     (Inr ([cat_Work, cat_Home],
           \<lparr>currentPage = 1, pageSize = 20, firstPage = 1, lastPage = 1, totalRecords = 2\<rparr>),
      log_stmt (Categories_SELECT_ALL ''name'' ''DESC'' 20 0) db_cats) \<and>
   fst (Task_GetAll pg_sample (Responds 5) ''milk''
      \<lparr>Page = 1, PageSize = 20, Sort = ''id'', SortSafelist = tasks_SortSafelist\<rparr>
      (db_AB pg_sample)) = Inr ([], no_results)"
  using
    GetAll_metadata [of pg_sample "Responds 5" "[]"
      "\<lparr>Page = 2, PageSize = 1, Sort = ''id'', SortSafelist = tasks_SortSafelist\<rparr>"
      "db_AB pg_sample"
      "[task_B\<lparr>ID := 2, CreatedAt := clock_sample, UserID := 2, Version := 1\<rparr>]"
      "\<lparr>currentPage = 2, pageSize = 1, firstPage = 1, lastPage = 2, totalRecords = 2\<rparr>"
      "log_stmt (Tasks_SELECT_ALL ''id'' ''ASC'' [] 1 1) (db_AB pg_sample)"]
    GetAll_metadata [of pg_sample "Responds 5" "''milk''"
      "\<lparr>Page = 1, PageSize = 20, Sort = ''-name'', SortSafelist = categories_SortSafelist\<rparr>"
      db_cats _ _ _ "[cat_Work, cat_Home]"
      "\<lparr>currentPage = 1, pageSize = 20, firstPage = 1, lastPage = 1, totalRecords = 2\<rparr>"
      "log_stmt (Categories_SELECT_ALL ''name'' ''DESC'' 20 0) db_cats"]
    GetAll_metadata [of pg_sample _ "''milk''"
      "\<lparr>Page = 1, PageSize = 20, Sort = ''id'', SortSafelist = tasks_SortSafelist\<rparr>"
      "db_AB pg_sample" _ _ _ _ _ _ 5]
  by (simp add: db_AB_eq list_defs sample_defs pg_sample_def lower_ascii_def)

subsection \<open>Insert, then get\<close>

lemma find_append_new:
  "\<forall>x \<in> set xs. \<not> P x \<Longrightarrow> P y \<Longrightarrow> find P (xs @ [y]) = Some y"
  by (induction xs) auto

text \<open>
  C2, where \<open>Insert\<close> departs from it: a task is inserted with \<open>UserID = 42\<close> into an
  empty table and read back under its id, and its \<open>UserID\<close> is 1, the first value of
  the sequence behind the column \<open>user_id\<close>. The \<open>INSERT\<close> does not list \<open>user_id\<close>
  among its columns, and \<open>Insert\<close> itself has already overwritten the caller's
  \<open>UserID\<close> with the value the statement returned.
\<close>

theorem Task_Insert_UserID_overwritten:
  "UserID task_A = 42 \<and>
   Task_Insert pg_sample (Responds 5) clock_sample task_A empty_db =
     Some (None, task_A\<lparr>ID := 1, CreatedAt := clock_sample, UserID := 1, Version := 1\<rparr>, db_A) \<and>
   fst (Task_Get (Responds 5) 1 db_A) =
     Inr (task_A\<lparr>ID := 1, CreatedAt := clock_sample, UserID := 1, Version := 1\<rparr>) \<and>
   UserID (task_A\<lparr>ID := 1, CreatedAt := clock_sample, UserID := 1, Version := 1\<rparr>) = 1"
  by (simp add: store_defs sample_defs)

text \<open>
  In general, after a successful \<open>Insert\<close>, \<open>Get\<close> on the assigned id (answered in
  time) returns the entity as \<open>Insert\<close> left it, with the due date as the column
  \<open>timestamp(0)\<close> stores it: the inserted entity with \<open>ID\<close>, \<open>CreatedAt\<close>, \<open>UserID\<close> and
  \<open>Version = 1\<close> assigned by the store (\<open>ID\<close> and \<open>UserID\<close> from their sequences,
  \<open>CreatedAt\<close> from the server clock) and every other field as the caller gave it. A
  due date without a fraction of a second is stored unchanged.
\<close>

theorem Task_Insert_then_Get:
  assumes ins: "Task_Insert p b now task d = Some (None, task', d')"
    and seq: "1 \<le> tasks_id_seq d"
    and ms: "ms < timeout_ms"
  shows "Task_Get (Responds ms) (Task.ID task') d' =
           (Inr (task'\<lparr>DueDate := timestamp0 p (DueDate task)\<rparr>),
            log_stmt (Tasks_SELECT (Task.ID task')) d') \<and>
    task' = task\<lparr>ID := tasks_id_seq d, CreatedAt := now, UserID := tasks_user_id_seq d,
                 Version := 1\<rparr> \<and>
    (Nanosecond (DueDate task) = 0 \<longrightarrow> timestamp0 p (DueDate task) = DueDate task)"
proof -
  from ins obtain lat where b: "b = Responds lat"
    by (cases b) (auto simp: Task_Insert_def without_deadline_def split: prod.splits sum.splits)
  from ins b have r: "sql_insert_task p now task (log_stmt Tasks_INSERT d) =
      (Inr (Task.ID task', CreatedAt task', UserID task', Version task'), d')"
    and t': "task' = task\<lparr>ID := Task.ID task', CreatedAt := CreatedAt task',
                           UserID := UserID task', Version := Version task'\<rparr>"
    by (auto simp: Task_Insert_def without_deadline_def split: prod.splits sum.splits)
  from r have fresh: "tasks_id_seq d \<notin> set (map Task.ID (tasks d))"
    and vals: "Task.ID task' = tasks_id_seq d" "CreatedAt task' = now"
      "UserID task' = tasks_user_id_seq d" "Version task' = 1"
    and tab: "tasks d' = tasks d @
       [\<lparr>ID = tasks_id_seq d, CreatedAt = now, Title = Title task,
         Description = Task.Description task, DueDate = timestamp0 p (DueDate task),
         Priority = Priority task, Status = Status task, Category = Category task,
         UserID = tasks_user_id_seq d, Version = 1\<rparr>]"
    by (auto simp: sql_insert_task_def Let_def split: if_splits)
  have eq: "task' = task\<lparr>ID := tasks_id_seq d, CreatedAt := now,
                          UserID := tasks_user_id_seq d, Version := 1\<rparr>"
    using t' vals by simp
  have row: "\<lparr>ID = tasks_id_seq d, CreatedAt = now, Title = Title task,
         Description = Task.Description task, DueDate = timestamp0 p (DueDate task),
         Priority = Priority task, Status = Status task, Category = Category task,
         UserID = tasks_user_id_seq d, Version = 1\<rparr> =
       task'\<lparr>DueDate := timestamp0 p (DueDate task)\<rparr>"
    using eq by simp
  have "find (\<lambda>r. Task.ID r = Task.ID task') (tasks d') =
      Some (task'\<lparr>DueDate := timestamp0 p (DueDate task)\<rparr>)"
    unfolding tab row using fresh vals(1) by (intro find_append_new) force+
  then show ?thesis
    using eq seq ms vals(1)
    by (simp add: Task_Get_def with_deadline_def sql_select_task_def timestamp0_def)
qed

theorem Task_Insert_then_Get_witness:
  "Task_Insert pg_sample (Responds 5) clock_sample task_B db_A =
     Some (None, task_B\<lparr>ID := 2, CreatedAt := clock_sample, UserID := 2, Version := 1\<rparr>,
           db_AB pg_sample) \<and>
   1 \<le> tasks_id_seq db_A \<and> (7::nat) < timeout_ms \<and>
   Nanosecond (DueDate task_B) = 0 \<and> timestamp0 pg_sample (DueDate task_B) = DueDate task_B \<and>
   Task_Get (Responds 7) 2 (db_AB pg_sample) =
     (Inr (task_B\<lparr>ID := 2, CreatedAt := clock_sample, UserID := 2, Version := 1\<rparr>),
      log_stmt (Tasks_SELECT 2) (db_AB pg_sample))"
  using Task_Insert_then_Get [of pg_sample "Responds 5" clock_sample task_B db_A
      "task_B\<lparr>ID := 2, CreatedAt := clock_sample, UserID := 2, Version := 1\<rparr>"
      "db_AB pg_sample" 7]
  by (simp add: db_AB_eq store_defs sample_defs)

subsection \<open>Calls without a deadline\<close>

text \<open>
  C7. \<open>Insert\<close>, on tasks and on categories, calls \<open>QueryRow\<close> with no context: with a
  backend that never answers the call never returns, and with one that answers after
  the three seconds (or any time later) it returns what a prompt backend would have
  made it return. \<open>Get\<close>, which carries the deadline, returns the context's error in
  both cases.
\<close>

theorem Insert_has_no_deadline:
  "Task_Insert p Hangs now task d = None \<and>
   Category_Insert Hangs now category d = None \<and>
   Task_Insert p (Responds (timeout_ms + ms)) now task d =
     Task_Insert p (Responds 0) now task d \<and>
   Category_Insert (Responds (timeout_ms + ms)) now category d =
     Category_Insert (Responds 0) now category d \<and>
   Task_Get Hangs 1 d =
     (Inl (Backend ''context deadline exceeded''), log_stmt (Tasks_SELECT 1) d) \<and>
   Task_Get (Responds (timeout_ms + ms)) 1 d =
     (Inl (Backend ''context deadline exceeded''), log_stmt (Tasks_SELECT 1) d)"
  by (simp add: Task_Insert_def Category_Insert_def without_deadline_def Task_Get_def
      with_deadline_def split: prod.splits sum.splits)

subsection \<open>Not found\<close>

text \<open>
  C8. For an id below 1, \<open>Get\<close> and \<open>Delete\<close>, on tasks and on categories, return
  \<open>ErrRecordNotFound\<close> and leave the backend as it was, log of statements included,
  whatever the backend would have answered. A \<open>Delete\<close> that reaches the backend and
  finds no row with the id returns \<open>ErrRecordNotFound\<close> too. A \<open>Delete\<close> of an id that
  is stored succeeds and removes every row with that id, whatever its version.
\<close>

theorem Get_Delete_not_found:
  "(i < 1 \<longrightarrow>
      Task_Get b i d = (Inl ErrRecordNotFound, d) \<and>
      Task_Delete b i d = (Some ErrRecordNotFound, d) \<and>
      Category_Get b i d = (Inl ErrRecordNotFound, d) \<and>
      Category_Delete b i d = (Some ErrRecordNotFound, d)) \<and>
   (1 \<le> i \<and> ms < timeout_ms \<and> i \<notin> set (map Task.ID (tasks d)) \<longrightarrow>
      Task_Delete (Responds ms) i d = (Some ErrRecordNotFound, log_stmt (Tasks_DELETE i) d)) \<and>
   (1 \<le> i \<and> ms < timeout_ms \<and> i \<notin> set (map Category.ID (categories d)) \<longrightarrow>
      Category_Delete (Responds ms) i d =
        (Some ErrRecordNotFound, log_stmt (Categories_DELETE i) d)) \<and>
   (1 \<le> i \<and> ms < timeout_ms \<and> i \<in> set (map Task.ID (tasks d)) \<longrightarrow>
      fst (Task_Delete (Responds ms) i d) = None \<and>
      tasks (snd (Task_Delete (Responds ms) i d)) = filter (\<lambda>r. Task.ID r \<noteq> i) (tasks d)) \<and>
   (1 \<le> i \<and> ms < timeout_ms \<and> i \<in> set (map Category.ID (categories d)) \<longrightarrow>
      fst (Category_Delete (Responds ms) i d) = None \<and>
      categories (snd (Category_Delete (Responds ms) i d)) =
        filter (\<lambda>r. Category.ID r \<noteq> i) (categories d))"
proof -
  have a: "i < 1 \<longrightarrow>
      Task_Get b i d = (Inl ErrRecordNotFound, d) \<and>
      Task_Delete b i d = (Some ErrRecordNotFound, d) \<and>
      Category_Get b i d = (Inl ErrRecordNotFound, d) \<and>
      Category_Delete b i d = (Some ErrRecordNotFound, d)"
    by (simp add: Task_Get_def Task_Delete_def Category_Get_def Category_Delete_def)
  have nf: "\<And>f xs. i \<notin> set (map f xs) \<Longrightarrow>
      filter (\<lambda>r. f r \<noteq> i) xs = xs \<and> filter (\<lambda>r. f r = i) xs = []"
    by (auto simp: filter_empty_conv filter_id_conv)
  have b1: "1 \<le> i \<and> ms < timeout_ms \<and> i \<notin> set (map Task.ID (tasks d)) \<longrightarrow>
      Task_Delete (Responds ms) i d = (Some ErrRecordNotFound, log_stmt (Tasks_DELETE i) d)"
    using nf [of Task.ID "tasks d"]
    by (auto simp: Task_Delete_def with_deadline_def sql_delete_task_def log_stmt_def)
  have b2: "1 \<le> i \<and> ms < timeout_ms \<and> i \<notin> set (map Category.ID (categories d)) \<longrightarrow>
      Category_Delete (Responds ms) i d =
        (Some ErrRecordNotFound, log_stmt (Categories_DELETE i) d)"
    using nf [of Category.ID "categories d"]
    by (auto simp: Category_Delete_def with_deadline_def sql_delete_category_def log_stmt_def)
  have c1: "1 \<le> i \<and> ms < timeout_ms \<and> i \<in> set (map Task.ID (tasks d)) \<longrightarrow>
      fst (Task_Delete (Responds ms) i d) = None \<and>
      tasks (snd (Task_Delete (Responds ms) i d)) = filter (\<lambda>r. Task.ID r \<noteq> i) (tasks d)"
    by (auto simp: Task_Delete_def with_deadline_def sql_delete_task_def filter_empty_conv)
  have c2: "1 \<le> i \<and> ms < timeout_ms \<and> i \<in> set (map Category.ID (categories d)) \<longrightarrow>
      fst (Category_Delete (Responds ms) i d) = None \<and>
      categories (snd (Category_Delete (Responds ms) i d)) =
        filter (\<lambda>r. Category.ID r \<noteq> i) (categories d)"
    by (auto simp: Category_Delete_def with_deadline_def sql_delete_category_def
        filter_empty_conv)
  from a b1 b2 c1 c2 show ?thesis by blast
qed

theorem Get_Delete_not_found_witness:
  "Task_Get Hangs 0 db_A = (Inl ErrRecordNotFound, db_A) \<and>
   Task_Get (Responds 5) (- 5) db_A = (Inl ErrRecordNotFound, db_A) \<and>
   Task_Delete (Responds 5) 0 db_A = (Some ErrRecordNotFound, db_A) \<and>
   Category_Get (Fails ''down'') 0 db_cats = (Inl ErrRecordNotFound, db_cats) \<and>
   Category_Delete (Responds 5) (- 5) db_cats = (Some ErrRecordNotFound, db_cats) \<and>
   Task_Delete (Responds 5) 8 db_A = (Some ErrRecordNotFound, log_stmt (Tasks_DELETE 8) db_A) \<and>
   Category_Delete (Responds 5) 8 db_cats =
     (Some ErrRecordNotFound, log_stmt (Categories_DELETE 8) db_cats) \<and>
   fst (Task_Delete (Responds 5) 1 (db_A\<lparr>tasks := [row_A\<lparr>Version := 9\<rparr>]\<rparr>)) = None \<and>
   tasks (snd (Task_Delete (Responds 5) 1 (db_A\<lparr>tasks := [row_A\<lparr>Version := 9\<rparr>]\<rparr>))) = [] \<and>
   fst (Category_Delete (Responds 5) 1 db_cats) = None \<and>
   categories (snd (Category_Delete (Responds 5) 1 db_cats)) = [cat_Home]"
  using Get_Delete_not_found [of 0 Hangs db_A 5] Get_Delete_not_found [of "- 5" "Responds 5" db_A 5]
    Get_Delete_not_found [of 0 "Responds 5" db_A 5]
    Get_Delete_not_found [of 0 "Fails ''down''" db_cats 5]
    Get_Delete_not_found [of "- 5" "Responds 5" db_cats 5]
    Get_Delete_not_found [of 8 Hangs db_A 5] Get_Delete_not_found [of 8 Hangs db_cats 5]
    Get_Delete_not_found [of 1 Hangs "db_A\<lparr>tasks := [row_A\<lparr>Version := 9\<rparr>]\<rparr>" 5]
    Get_Delete_not_found [of 1 Hangs db_cats 5]
  by (simp add: store_defs sample_defs)

subsection \<open>Category update\<close>

text \<open>
  C9. \<open>Update\<close> on categories sends one unconditional \<open>UPDATE\<close> and returns the error
  of \<open>ExecContext\<close> as it is: it succeeds whenever the backend answers in time, also
  when no row has the id, and it never returns \<open>ErrRecordNotFound\<close> or
  \<open>ErrEditConflict\<close>; a failure is an error of the backend.
\<close>

theorem Category_Update_unconditional:
  assumes "Category_Update b category d = (err, d')"
  shows "((\<exists>ms. b = Responds ms \<and> ms < timeout_ms) \<longrightarrow> err = None) \<and>
    err \<noteq> Some ErrRecordNotFound \<and> err \<noteq> Some ErrEditConflict \<and>
    (err \<noteq> None \<longrightarrow> (\<exists>m. err = Some (Backend m))) \<and>
    queries d' = queries d @ [Categories_UPDATE (Category.ID category)]"
  using assms
  by (auto simp: Category_Update_def with_deadline_def sql_update_category_def
      split: backend.splits if_splits prod.splits sum.splits)

theorem Category_Update_unconditional_witness:
  "Category_Update (Responds 5) (cat_Work\<lparr>Category.ID := 77\<rparr>) db_cats =
     (None, log_stmt (Categories_UPDATE 77) db_cats) \<and>
   77 \<notin> set (map Category.ID (categories db_cats)) \<and>
   Category_Update Hangs (cat_Work\<lparr>Category.ID := 77\<rparr>) db_cats =
     (Some (Backend ''context deadline exceeded''), log_stmt (Categories_UPDATE 77) db_cats)"
  using Category_Update_unconditional [of "Responds 5" "cat_Work\<lparr>Category.ID := 77\<rparr>" db_cats
      None "log_stmt (Categories_UPDATE 77) db_cats"]
    Category_Update_unconditional [of Hangs "cat_Work\<lparr>Category.ID := 77\<rparr>" db_cats
      "Some (Backend ''context deadline exceeded'')" "log_stmt (Categories_UPDATE 77) db_cats"]
  by (simp add: store_defs sample_defs)

subsection \<open>Filter, order and window of a list\<close>

lemma fts_match_words:
  "fts_match p doc q =
     (ts_parse p q \<noteq> [] \<and>
      list_all (\<lambda>w. list_ex (\<lambda>w'. map lower_ascii w' = map lower_ascii w) (ts_parse p doc))
        (ts_parse p q))"
  unfolding fts_match_def ts_lexemes_def simple_dict_def list_all_iff list_ex_iff
  by (simp add: image_iff) metis

lemma tasks_where_eq:
  "tasks_where p title =
     (\<lambda>r. title = [] \<or>
              ts_parse p title \<noteq> [] \<and>
              list_all (\<lambda>w. list_ex (\<lambda>w'. map lower_ascii w' = map lower_ascii w)
                                (ts_parse p (Title r)))
                (ts_parse p title))"
  by (auto simp: tasks_where_def fun_eq_iff fts_match_words)

lemma Task_GetAll_answered:
  "Task_GetAll p b title f d = (Inr res, d') \<Longrightarrow> answers_in_time b"
  by (auto simp: Task_GetAll_def split: option.splits prod.splits sum.splits
      dest: with_deadline_Inr)

lemma Category_GetAll_answered:
  "Category_GetAll p b f d = (Inr res, d') \<Longrightarrow> answers_in_time b"
  by (auto simp: Category_GetAll_def split: option.splits prod.splits sum.splits
      dest: with_deadline_Inr)

lemma Task_GetAll_run:
  assumes "sortColumn f = Some col" "tasks_column p col = Some key" "0 \<le> limit f"
    "0 \<le> offset f" "answers_in_time b"
  shows "fst (Task_GetAll p b title f d) =
     Inr (take (nat (limit f)) (drop (nat (offset f))
            (sort_by (order_by key (sortDirection f) Task.ID)
               (filter (tasks_where p title) (tasks d)))),
          calculateMetadata
            (if take (nat (limit f)) (drop (nat (offset f))
                  (sort_by (order_by key (sortDirection f) Task.ID)
                     (filter (tasks_where p title) (tasks d)))) = [] then 0
             else int (length (filter (tasks_where p title) (tasks d))))
            (Page f) (PageSize f))"
  using assms
  by (simp add: Task_GetAll_def with_deadline_run sql_select_tasks_def select_page_def
      scan_rows_counted)

lemma Category_GetAll_run:
  assumes "sortColumn f = Some col" "categories_column p col = Some key" "0 \<le> limit f"
    "0 \<le> offset f" "answers_in_time b"
  shows "fst (Category_GetAll p b f d) =
     Inr (take (nat (limit f)) (drop (nat (offset f))
            (sort_by (order_by key (sortDirection f) Category.ID) (categories d))),
          calculateMetadata
            (if take (nat (limit f)) (drop (nat (offset f))
                  (sort_by (order_by key (sortDirection f) Category.ID) (categories d))) = []
             then 0 else int (length (categories d)))
            (Page f) (PageSize f))"
  using assms
  by (simp add: Category_GetAll_def with_deadline_run sql_select_categories_def
      select_page_def scan_rows_counted)

lemma sortColumn_Some: "sortColumn f = Some col \<Longrightarrow> col = strip_dash (Sort f)"
  by (auto simp: sortColumn_def split: if_splits)

lemma Task_GetAll_rows:
  assumes "Task_GetAll p b title f d = (Inr (ts, md), d')"
  shows "\<exists>key sorted. tasks_column p (strip_dash (Sort f)) = Some key \<and>
     mset sorted = mset (filter (tasks_where p title) (tasks d)) \<and>
     sorted_wrt (order_by key (sortDirection f) Task.ID) sorted \<and>
     ts = take (nat (limit f)) (drop (nat (offset f)) sorted)"
proof -
  from Task_GetAll_success [OF assms] obtain col key where
    k: "sortColumn f = Some col" "tasks_column p col = Some key"
    "ts = take (nat (limit f)) (drop (nat (offset f))
            (sort_by (order_by key (sortDirection f) Task.ID)
               (filter (tasks_where p title) (tasks d))))"
    by blast
  let ?sorted = "sort_by (order_by key (sortDirection f) Task.ID)
      (filter (tasks_where p title) (tasks d))"
  have "tasks_column p (strip_dash (Sort f)) = Some key"
    using k(1,2) sortColumn_Some by blast
  moreover have "mset ?sorted = mset (filter (tasks_where p title) (tasks d))"
    by (simp add: mset_sort_by)
  moreover have "sorted_wrt (order_by key (sortDirection f) Task.ID) ?sorted"
    by (rule sort_by_order_by_sorted)
  ultimately show ?thesis using k(3) by blast
qed

lemma Category_GetAll_rows:
  assumes "Category_GetAll p b f d = (Inr (cs, md), d')"
  shows "\<exists>key sorted. categories_column p (strip_dash (Sort f)) = Some key \<and>
     mset sorted = mset (categories d) \<and>
     sorted_wrt (order_by key (sortDirection f) Category.ID) sorted \<and>
     cs = take (nat (limit f)) (drop (nat (offset f)) sorted)"
proof -
  from Category_GetAll_success [OF assms] obtain col key where
    k: "sortColumn f = Some col" "categories_column p col = Some key"
    "cs = take (nat (limit f)) (drop (nat (offset f))
            (sort_by (order_by key (sortDirection f) Category.ID) (categories d)))"
    by blast
  let ?sorted = "sort_by (order_by key (sortDirection f) Category.ID) (categories d)"
  have "categories_column p (strip_dash (Sort f)) = Some key"
    using k(1,2) sortColumn_Some by blast
  moreover have "mset ?sorted = mset (categories d)"
    by (simp add: mset_sort_by)
  moreover have "sorted_wrt (order_by key (sortDirection f) Category.ID) ?sorted"
    by (rule sort_by_order_by_sorted)
  ultimately show ?thesis using k(3) by blast
qed

lemma Task_GetAll_deterministic:
  assumes ok: "Task_GetAll p b title f d = (Inr (ts, md), d')"
    and same: "mset (tasks d2) = mset (tasks d)"
    and ids: "distinct (map Task.ID (tasks d))"
  shows "fst (Task_GetAll p b title f d2) = Inr (ts, md)"
proof -
  from Task_GetAll_answered [OF ok] have b: "answers_in_time b" .
  from Task_GetAll_success [OF ok] obtain col key where
    k: "sortColumn f = Some col" "tasks_column p col = Some key" "0 \<le> limit f" "0 \<le> offset f"
    by blast
  let ?m = "filter (tasks_where p title) (tasks d)"
  let ?m2 = "filter (tasks_where p title) (tasks d2)"
  have m: "mset ?m = mset ?m2" using same by (simp add: mset_filter)
  then have len: "length ?m2 = length ?m" by (metis size_mset)
  have "distinct (map Task.ID ?m)" using ids by (rule distinct_map_filter)
  with m have srt: "sort_by (order_by key (sortDirection f) Task.ID) ?m2 =
      sort_by (order_by key (sortDirection f) Task.ID) ?m"
    using sort_by_order_by_deterministic [of ?m ?m2 Task.ID key "sortDirection f"] by simp
  have "fst (Task_GetAll p b title f d2) = fst (Task_GetAll p b title f d)"
    unfolding Task_GetAll_run [OF k b] srt len ..
  with ok show ?thesis by simp
qed

lemma Category_GetAll_deterministic:
  assumes ok: "Category_GetAll p b f d = (Inr (cs, md), d')"
    and same: "mset (categories d2) = mset (categories d)"
    and ids: "distinct (map Category.ID (categories d))"
  shows "fst (Category_GetAll p b f d2) = Inr (cs, md)"
proof -
  from Category_GetAll_answered [OF ok] have b: "answers_in_time b" .
  from Category_GetAll_success [OF ok] obtain col key where
    k: "sortColumn f = Some col" "categories_column p col = Some key" "0 \<le> limit f"
    "0 \<le> offset f"
    by blast
  have len: "length (categories d2) = length (categories d)" using same by (metis size_mset)
  have srt: "sort_by (order_by key (sortDirection f) Category.ID) (categories d2) =
      sort_by (order_by key (sortDirection f) Category.ID) (categories d)"
    using sort_by_order_by_deterministic
      [of "categories d" "categories d2" Category.ID key "sortDirection f"] same ids
    by simp
  have "fst (Category_GetAll p b f d2) = fst (Category_GetAll p b f d)"
    unfolding Category_GetAll_run [OF k b] srt len ..
  with ok show ?thesis by simp
qed

text \<open>
  C4, as the spec states it, fails for categories. The filter of a client is the query
  parameter \<open>name\<close>: \<open>listCategoriesHandler\<close> reads it and passes it nowhere (the handler
  ends after the validation, having called no model and written no list). \<open>GetAll\<close> on
  categories has no parameter for a filter and its query has no \<open>WHERE\<close> clause: given
  the \<open>Filters\<close> of that request it lists both categories, Work and Home, and Home does
  not match \<open>work\<close> by the match that the task list applies.
\<close>

theorem Category_GetAll_filter_counterexample:
  "listCategoriesHandler [] ''work'' 1 20 ''id'' db_cats = (Nothing_written, db_cats) \<and>
   fst (Category_GetAll pg_sample (Responds 5)
          \<lparr>Page = 1, PageSize = 20, Sort = ''id'', SortSafelist = categories_SortSafelist\<rparr>
          db_cats) =
     Inr ([cat_Work, cat_Home],
          \<lparr>currentPage = 1, pageSize = 20, firstPage = 1, lastPage = 1, totalRecords = 2\<rparr>) \<and>
   fts_match pg_sample (Name cat_Work) ''work'' \<and>
   \<not> fts_match pg_sample (Name cat_Home) ''work''"
  by (simp add: list_defs sample_defs pg_sample_def lower_ascii_def listCategoriesHandler_def
      ValidateFilters_def Check_def Valid_def)

text \<open>
  C4, amended. The list of a successful \<open>GetAll\<close> on tasks is a window, \<open>limit\<close> rows
  after the first \<open>offset\<close>, of a list that holds exactly the rows matching the filter
  and is ordered by the sort column in the sort direction (texts as the collation of
  the database orders them), rows with equal sort keys by ascending id. Every row
  matches the empty filter; a row matches another filter when the filter has a word
  and each of its words is, the case of the letters \<open>A\<close> to \<open>Z\<close> apart, a word of the
  row's title (the words of a text being what the parser of the database finds). On
  categories \<open>GetAll\<close> takes no filter and the list is such a window of all the rows.
  When the ids are distinct the result does not depend on the order in which the table
  holds its rows. Scenario: after the inserts of A (due 2024-01-01) and B (due
  2024-01-02), \<open>GetAll\<close> with the empty filter, page 1 of size 20 and
  \<open>sort = -due_date\<close>, under a safelist that admits it, returns \<open>[B, A]\<close> with
  \<open>totalRecords = 2\<close>.
\<close>

theorem GetAll_filter_order_window:
  "(Task_GetAll p b title f d = (Inr (ts, md), d') \<longrightarrow>
      (\<exists>key sorted. tasks_column p (strip_dash (Sort f)) = Some key \<and>
         mset sorted =
           mset (filter
             (\<lambda>r. title = [] \<or>
                ts_parse p title \<noteq> [] \<and>
                list_all (\<lambda>w. list_ex (\<lambda>w'. map lower_ascii w' = map lower_ascii w)
                                  (ts_parse p (Title r)))
                  (ts_parse p title)) (tasks d)) \<and>
         sorted_wrt (order_by key (sortDirection f) Task.ID) sorted \<and>
         ts = take (nat (limit f)) (drop (nat (offset f)) sorted)) \<and>
      (mset (tasks d2) = mset (tasks d) \<and> distinct (map Task.ID (tasks d)) \<longrightarrow>
         fst (Task_GetAll p b title f d2) = Inr (ts, md))) \<and>
   (Category_GetAll p b f d = (Inr (cs, md2), d'') \<longrightarrow>
      (\<exists>key sorted. categories_column p (strip_dash (Sort f)) = Some key \<and>
         mset sorted = mset (categories d) \<and>
         sorted_wrt (order_by key (sortDirection f) Category.ID) sorted \<and>
         cs = take (nat (limit f)) (drop (nat (offset f)) sorted)) \<and>
      (mset (categories d2) = mset (categories d) \<and>
       distinct (map Category.ID (categories d)) \<longrightarrow>
         fst (Category_GetAll p b f d2) = Inr (cs, md2))) \<and>
   fst (Task_GetAll p (Responds 5) []
          \<lparr>Page = 1, PageSize = 20, Sort = ''-due_date'',
           SortSafelist = [''due_date'', ''-due_date'']\<rparr> (db_AB p)) =
     Inr ([task_B\<lparr>ID := 2, CreatedAt := clock_sample, UserID := 2, Version := 1\<rparr>,
           task_A\<lparr>ID := 1, CreatedAt := clock_sample, UserID := 1, Version := 1\<rparr>],
          \<lparr>currentPage = 1, pageSize = 20, firstPage = 1, lastPage = 1, totalRecords = 2\<rparr>)"
  (is "?T \<and> ?C \<and> ?S")
proof -
  have t: ?T
    using Task_GetAll_rows [of p b title f d ts md d']
      Task_GetAll_deterministic [of p b title f d ts md d' d2]
    unfolding tasks_where_eq by blast
  have c: ?C
    using Category_GetAll_rows [of p b f d cs md2 d'']
      Category_GetAll_deterministic [of p b f d cs md2 d'' d2]
    by blast
  have s: ?S
    by (simp add: db_AB_eq list_defs sample_defs)
  from t c s show ?thesis by blast
qed

theorem GetAll_filter_order_window_witness:
  "Task_GetAll pg_sample (Responds 5) ''b''
      \<lparr>Page = 1, PageSize = 20, Sort = ''-title'', SortSafelist = tasks_SortSafelist\<rparr>
      (db_AB pg_sample) =
     (Inr ([task_B\<lparr>ID := 2, CreatedAt := clock_sample, UserID := 2, Version := 1\<rparr>],
           \<lparr>currentPage = 1, pageSize = 20, firstPage = 1, lastPage = 1, totalRecords = 1\<rparr>),
      log_stmt (Tasks_SELECT_ALL ''title'' ''DESC'' ''b'' 20 0) (db_AB pg_sample)) \<and>
   Title task_B = ''B'' \<and>
   fst (Task_GetAll pg_sample (Responds 5) ''b''
      \<lparr>Page = 1, PageSize = 20, Sort = ''-title'', SortSafelist = tasks_SortSafelist\<rparr>
      ((db_AB pg_sample)\<lparr>tasks := rev (tasks (db_AB pg_sample))\<rparr>)) =
     Inr ([task_B\<lparr>ID := 2, CreatedAt := clock_sample, UserID := 2, Version := 1\<rparr>],
          \<lparr>currentPage = 1, pageSize = 20, firstPage = 1, lastPage = 1, totalRecords = 1\<rparr>) \<and>
   Category_GetAll pg_sample (Responds 5)
      \<lparr>Page = 1, PageSize = 20, Sort = ''name'', SortSafelist = categories_SortSafelist\<rparr>
      db_cats =
     (Inr ([cat_Home, cat_Work],
           \<lparr>currentPage = 1, pageSize = 20, firstPage = 1, lastPage = 1, totalRecords = 2\<rparr>),
      log_stmt (Categories_SELECT_ALL ''name'' ''ASC'' 20 0) db_cats) \<and>
   fst (Category_GetAll pg_sample (Responds 5)
      \<lparr>Page = 1, PageSize = 20, Sort = ''name'', SortSafelist = categories_SortSafelist\<rparr>
      (db_cats\<lparr>categories := rev (categories db_cats)\<rparr>)) =
     Inr ([cat_Home, cat_Work],
          \<lparr>currentPage = 1, pageSize = 20, firstPage = 1, lastPage = 1, totalRecords = 2\<rparr>)"
  using
    GetAll_filter_order_window [of pg_sample "Responds 5" "''b''"
      "\<lparr>Page = 1, PageSize = 20, Sort = ''-title'', SortSafelist = tasks_SortSafelist\<rparr>"
      "db_AB pg_sample"
      "[task_B\<lparr>ID := 2, CreatedAt := clock_sample, UserID := 2, Version := 1\<rparr>]"
      "\<lparr>currentPage = 1, pageSize = 20, firstPage = 1, lastPage = 1, totalRecords = 1\<rparr>"
      "log_stmt (Tasks_SELECT_ALL ''title'' ''DESC'' ''b'' 20 0) (db_AB pg_sample)"
      "(db_AB pg_sample)\<lparr>tasks := rev (tasks (db_AB pg_sample))\<rparr>"]
    GetAll_filter_order_window [of pg_sample "Responds 5" "''b''"
      "\<lparr>Page = 1, PageSize = 20, Sort = ''name'', SortSafelist = categories_SortSafelist\<rparr>"
      db_cats _ _ _ "db_cats\<lparr>categories := rev (categories db_cats)\<rparr>"
      "[cat_Home, cat_Work]"
      "\<lparr>currentPage = 1, pageSize = 20, firstPage = 1, lastPage = 1, totalRecords = 2\<rparr>"
      "log_stmt (Categories_SELECT_ALL ''name'' ''ASC'' 20 0) db_cats"]
  by (simp add: db_AB_eq list_defs sample_defs pg_sample_def lower_ascii_def)

subsection \<open>The sort safelist\<close>

lemma Check_keeps: "v \<noteq> [] \<Longrightarrow> Check ok field message v \<noteq> []"
  by (simp add: Check_def)

lemma Check_fails: "\<not> ok \<Longrightarrow> Check ok field message v \<noteq> []"
  by (auto simp: Check_def)

lemma ValidateFilters_sort:
  "Sort f \<notin> set (SortSafelist f) \<Longrightarrow> \<not> Valid (ValidateFilters v f)"
  by (simp add: ValidateFilters_def Valid_def Check_fails)

lemma strip_dash_tasks_SortSafelist:
  "s \<in> set tasks_SortSafelist \<Longrightarrow> strip_dash s \<in> set tasks_SortSafelist"
  by (auto simp: tasks_SortSafelist_def strip_dash_def)

lemma strip_dash_categories_SortSafelist:
  "s \<in> set categories_SortSafelist \<Longrightarrow> strip_dash s \<in> set categories_SortSafelist"
  by (auto simp: categories_SortSafelist_def strip_dash_def)

lemma sortDirection_cases: "sortDirection f = ''ASC'' \<or> sortDirection f = ''DESC''"
  by (simp add: sortDirection_def split: list.splits)

lemma Task_GetAll_queries:
  "Task_GetAll p b title f d = (res, d') \<Longrightarrow>
   (Sort f \<notin> set (SortSafelist f) \<and> d' = d) \<or>
   (Sort f \<in> set (SortSafelist f) \<and>
    queries d' = queries d @
      [Tasks_SELECT_ALL (strip_dash (Sort f)) (sortDirection f) title (limit f) (offset f)])"
  by (auto simp: Task_GetAll_def sortColumn_def with_deadline_def sql_select_tasks_def
      split: if_splits backend.splits option.splits prod.splits sum.splits)

lemma Category_GetAll_queries:
  "Category_GetAll p b f d = (res, d') \<Longrightarrow>
   (Sort f \<notin> set (SortSafelist f) \<and> d' = d) \<or>
   (Sort f \<in> set (SortSafelist f) \<and>
    queries d' = queries d @
      [Categories_SELECT_ALL (strip_dash (Sort f)) (sortDirection f) (limit f) (offset f)])"
  by (auto simp: Category_GetAll_def sortColumn_def with_deadline_def
      sql_select_categories_def
      split: if_splits backend.splits option.splits prod.splits sum.splits)

lemma listTasksHandler_queries:
  assumes "listTasksHandler p b v title page page_size sort_value d = (resp, d')"
  shows "d' = d \<or>
    (sort_value \<in> set tasks_SortSafelist \<and>
     (\<exists>col dir lmt ofs. queries d' = queries d @ [Tasks_SELECT_ALL col dir title lmt ofs] \<and>
        col \<in> set tasks_SortSafelist \<and> (dir = ''ASC'' \<or> dir = ''DESC'')))"
proof -
  let ?f = "\<lparr>Page = page, PageSize = page_size, Sort = sort_value,
             SortSafelist = tasks_SortSafelist\<rparr>"
  show ?thesis
  proof (cases "Valid (ValidateFilters v ?f)")
    case False
    with assms show ?thesis by (simp add: listTasksHandler_def Let_def)
  next
    case True
    then have safe: "sort_value \<in> set tasks_SortSafelist"
      using ValidateFilters_sort [of ?f v] by auto
    from True assms obtain res where "Task_GetAll p b title ?f d = (res, d')"
      by (auto simp: listTasksHandler_def Let_def split: prod.splits sum.splits)
    from Task_GetAll_queries [OF this] safe have
      "queries d' = queries d @
         [Tasks_SELECT_ALL (strip_dash sort_value) (sortDirection ?f) title (limit ?f)
            (offset ?f)]"
      by simp
    with safe strip_dash_tasks_SortSafelist [OF safe] sortDirection_cases [of ?f]
    show ?thesis by blast
  qed
qed

text \<open>
  C6. Under the safelist of either list endpoint, a value \<open>sortColumn\<close> returns is an
  element of that safelist; under any safelist it is the safelisted sort token without
  its leading \<open>-\<close>. \<open>GetAll\<close> sends either nothing or one query whose \<open>ORDER BY\<close> column
  is that value and whose direction is \<open>ASC\<close> or \<open>DESC\<close>. A list handler given a sort
  value outside its safelist writes a validation failure and leaves the backend
  untouched: no statement is sent. Every statement \<open>listTasksHandler\<close> sends is a list
  query ordered by a column of its safelist.
\<close>

theorem sort_safelist_enforced:
  "(SortSafelist f = tasks_SortSafelist \<or> SortSafelist f = categories_SortSafelist \<longrightarrow>
      (\<forall>col. sortColumn f = Some col \<longrightarrow> col \<in> set (SortSafelist f))) \<and>
   (\<forall>col. sortColumn f = Some col \<longrightarrow>
      Sort f \<in> set (SortSafelist f) \<and> col = strip_dash (Sort f)) \<and>
   (Task_GetAll p b title f d = (res, d') \<longrightarrow>
      d' = d \<or>
      (Sort f \<in> set (SortSafelist f) \<and>
       (sortDirection f = ''ASC'' \<or> sortDirection f = ''DESC'') \<and>
       queries d' = queries d @
         [Tasks_SELECT_ALL (strip_dash (Sort f)) (sortDirection f) title (limit f)
            (offset f)])) \<and>
   (Category_GetAll p b f d = (cres, d2) \<longrightarrow>
      d2 = d \<or>
      (Sort f \<in> set (SortSafelist f) \<and>
       (sortDirection f = ''ASC'' \<or> sortDirection f = ''DESC'') \<and>
       queries d2 = queries d @
         [Categories_SELECT_ALL (strip_dash (Sort f)) (sortDirection f) (limit f)
            (offset f)])) \<and>
   (sort_value \<notin> set tasks_SortSafelist \<longrightarrow>
      (\<exists>errs. errs \<noteq> [] \<and>
         listTasksHandler p b v title page page_size sort_value d =
           (FailedValidation errs, d))) \<and>
   (sort_value \<notin> set categories_SortSafelist \<longrightarrow>
      (\<exists>errs. errs \<noteq> [] \<and>
         listCategoriesHandler v name page page_size sort_value d =
           (FailedValidation errs, d))) \<and>
   (listTasksHandler p b v title page page_size sort_value d = (resp, d3) \<longrightarrow>
      d3 = d \<or>
      (sort_value \<in> set tasks_SortSafelist \<and>
       (\<exists>col dir lmt ofs. queries d3 = queries d @ [Tasks_SELECT_ALL col dir title lmt ofs] \<and>
          col \<in> set tasks_SortSafelist \<and> (dir = ''ASC'' \<or> dir = ''DESC'')))) \<and>
   snd (listCategoriesHandler v name page page_size sort_value d) = d"
proof -
  have 1: "SortSafelist f = tasks_SortSafelist \<or> SortSafelist f = categories_SortSafelist \<longrightarrow>
      (\<forall>col. sortColumn f = Some col \<longrightarrow> col \<in> set (SortSafelist f))"
    using strip_dash_tasks_SortSafelist strip_dash_categories_SortSafelist
    by (auto simp: sortColumn_def split: if_splits)
  have 2: "\<forall>col. sortColumn f = Some col \<longrightarrow>
      Sort f \<in> set (SortSafelist f) \<and> col = strip_dash (Sort f)"
    by (auto simp: sortColumn_def split: if_splits)
  have 3: "Task_GetAll p b title f d = (res, d') \<longrightarrow>
      d' = d \<or>
      (Sort f \<in> set (SortSafelist f) \<and>
       (sortDirection f = ''ASC'' \<or> sortDirection f = ''DESC'') \<and>
       queries d' = queries d @
         [Tasks_SELECT_ALL (strip_dash (Sort f)) (sortDirection f) title (limit f)
            (offset f)])"
    using Task_GetAll_queries [of p b title f d res d'] sortDirection_cases [of f] by blast
  have 4: "Category_GetAll p b f d = (cres, d2) \<longrightarrow>
      d2 = d \<or>
      (Sort f \<in> set (SortSafelist f) \<and>
       (sortDirection f = ''ASC'' \<or> sortDirection f = ''DESC'') \<and>
       queries d2 = queries d @
         [Categories_SELECT_ALL (strip_dash (Sort f)) (sortDirection f) (limit f)
            (offset f)])"
    using Category_GetAll_queries [of p b f d cres d2] sortDirection_cases [of f] by blast
  have 5: "sort_value \<notin> set tasks_SortSafelist \<longrightarrow>
      (\<exists>errs. errs \<noteq> [] \<and>
         listTasksHandler p b v title page page_size sort_value d =
           (FailedValidation errs, d))"
    using ValidateFilters_sort
      [of "\<lparr>Page = page, PageSize = page_size, Sort = sort_value,
            SortSafelist = tasks_SortSafelist\<rparr>" v]
    by (auto simp: listTasksHandler_def Let_def Valid_def)
  have 6: "sort_value \<notin> set categories_SortSafelist \<longrightarrow>
      (\<exists>errs. errs \<noteq> [] \<and>
         listCategoriesHandler v name page page_size sort_value d =
           (FailedValidation errs, d))"
    using ValidateFilters_sort
      [of "\<lparr>Page = page, PageSize = page_size, Sort = sort_value,
            SortSafelist = categories_SortSafelist\<rparr>" v]
    by (auto simp: listCategoriesHandler_def Let_def Valid_def)
  have 7: "listTasksHandler p b v title page page_size sort_value d = (resp, d3) \<longrightarrow>
      d3 = d \<or>
      (sort_value \<in> set tasks_SortSafelist \<and>
       (\<exists>col dir lmt ofs. queries d3 = queries d @ [Tasks_SELECT_ALL col dir title lmt ofs] \<and>
          col \<in> set tasks_SortSafelist \<and> (dir = ''ASC'' \<or> dir = ''DESC'')))"
    using listTasksHandler_queries by blast
  have 8: "snd (listCategoriesHandler v name page page_size sort_value d) = d"
    by (simp add: listCategoriesHandler_def Let_def)
  from 1 2 3 4 5 6 7 8 show ?thesis by blast
qed

theorem sort_safelist_enforced_witness:
  "sortColumn \<lparr>Page = 1, PageSize = 20, Sort = ''-title'', SortSafelist = tasks_SortSafelist\<rparr>
     = Some ''title'' \<and>
   ''title'' \<in> set tasks_SortSafelist \<and>
   ''due_date'' \<notin> set tasks_SortSafelist \<and>
   listTasksHandler pg_sample (Responds 5) [] [] 1 20 ''due_date'' (db_AB pg_sample) =
     (FailedValidation [(''sort'', ''invalid sort value'')], db_AB pg_sample) \<and>
   ''id; DROP TABLE categories'' \<notin> set categories_SortSafelist \<and>
   listCategoriesHandler [] [] 1 20 ''id; DROP TABLE categories'' db_cats =
     (FailedValidation [(''sort'', ''invalid sort value'')], db_cats) \<and>
   listTasksHandler pg_sample (Responds 5) [] [] 1 20 ''-title'' (db_AB pg_sample) =
     (OK_tasks [task_B\<lparr>ID := 2, CreatedAt := clock_sample, UserID := 2, Version := 1\<rparr>,
                task_A\<lparr>ID := 1, CreatedAt := clock_sample, UserID := 1, Version := 1\<rparr>]
        \<lparr>currentPage = 1, pageSize = 20, firstPage = 1, lastPage = 1, totalRecords = 2\<rparr>,
      log_stmt (Tasks_SELECT_ALL ''title'' ''DESC'' [] 20 0) (db_AB pg_sample)) \<and>
   fst (Category_GetAll pg_sample (Responds 5)
      \<lparr>Page = 1, PageSize = 20, Sort = ''-title'', SortSafelist = tasks_SortSafelist\<rparr>
      db_cats) = Inl (Backend ''column does not exist'')"
  using
    sort_safelist_enforced [of
      "\<lparr>Page = 1, PageSize = 20, Sort = ''-title'', SortSafelist = tasks_SortSafelist\<rparr>"
      pg_sample "Responds 5" "[]" "db_AB pg_sample"
      "Inr ([task_B\<lparr>ID := 2, CreatedAt := clock_sample, UserID := 2, Version := 1\<rparr>,
             task_A\<lparr>ID := 1, CreatedAt := clock_sample, UserID := 1, Version := 1\<rparr>],
        \<lparr>currentPage = 1, pageSize = 20, firstPage = 1, lastPage = 1, totalRecords = 2\<rparr>)"
      "log_stmt (Tasks_SELECT_ALL ''title'' ''DESC'' [] 20 0) (db_AB pg_sample)"
      "Inl (Backend ''column does not exist'')"
      "log_stmt (Categories_SELECT_ALL ''title'' ''DESC'' 20 0) (db_AB pg_sample)"
      "''due_date''" "[]" 1 20 "[]"
      "FailedValidation [(''sort'', ''invalid sort value'')]" "db_AB pg_sample"]
    sort_safelist_enforced [of
      "\<lparr>Page = 1, PageSize = 20, Sort = ''-title'', SortSafelist = tasks_SortSafelist\<rparr>"
      pg_sample "Responds 5" "[]" db_cats _ _ _ _
      "''id; DROP TABLE categories''" "[]" 1 20 "[]" _ _]
    sort_safelist_enforced [of
      "\<lparr>Page = 1, PageSize = 20, Sort = ''-title'', SortSafelist = tasks_SortSafelist\<rparr>"
      pg_sample "Responds 5" "[]" "db_AB pg_sample" _ _ _ _
      "''-title''" "[]" 1 20 "[]"
      "OK_tasks [task_B\<lparr>ID := 2, CreatedAt := clock_sample, UserID := 2, Version := 1\<rparr>,
                task_A\<lparr>ID := 1, CreatedAt := clock_sample, UserID := 1, Version := 1\<rparr>]
        \<lparr>currentPage = 1, pageSize = 20, firstPage = 1, lastPage = 1, totalRecords = 2\<rparr>"
      "log_stmt (Tasks_SELECT_ALL ''title'' ''DESC'' [] 20 0) (db_AB pg_sample)"]
  by (simp add: db_AB_eq list_defs sample_defs listTasksHandler_def listCategoriesHandler_def
      ValidateFilters_def Check_def Valid_def pg_sample_def)

subsection \<open>The temporal value: digits\<close>

lemma digit_cases:
  "n < 10 \<Longrightarrow> n = 0 \<or> n = 1 \<or> n = 2 \<or> n = 3 \<or> n = 4 \<or> n = 5 \<or> n = 6 \<or> n = 7 \<or> n = 8 \<or> n = (9::nat)"
  by arith

lemma digit_char_props:
  assumes "n < 10"
  shows "digit_value (digit_char n) = n"
    and "CHR ''0'' \<le> digit_char n" and "digit_char n \<le> CHR ''9''"
    and "digit_char n \<noteq> CHR '' ''" and "digit_char n \<noteq> CHR ''-''"
    and "digit_char n \<noteq> CHR ''+''" and "digit_char n \<noteq> CHR '':''"
    and "plain_char (digit_char n)"
  using digit_cases [OF assms]
  by (auto simp: digit_char_def digit_value_def less_eq_char_def plain_char_def)

lemma char_digit_cases:
  assumes "CHR ''0'' \<le> c" "c \<le> CHR ''9''"
  shows "c \<in> set ''0123456789''"
proof -
  have b: "48 \<le> (of_char c :: nat)" "(of_char c :: nat) \<le> 57"
    using assms by (simp_all add: less_eq_char_def)
  have "(of_char c :: nat) = of_char (CHR ''0'') \<or> (of_char c :: nat) = of_char (CHR ''1'') \<or>
    (of_char c :: nat) = of_char (CHR ''2'') \<or> (of_char c :: nat) = of_char (CHR ''3'') \<or>
    (of_char c :: nat) = of_char (CHR ''4'') \<or> (of_char c :: nat) = of_char (CHR ''5'') \<or>
    (of_char c :: nat) = of_char (CHR ''6'') \<or> (of_char c :: nat) = of_char (CHR ''7'') \<or>
    (of_char c :: nat) = of_char (CHR ''8'') \<or> (of_char c :: nat) = of_char (CHR ''9'')"
    using b by simp arith
  then show ?thesis
    unfolding of_char_eq_iff by auto
qed

lemma digit_value_props:
  assumes "CHR ''0'' \<le> c" "c \<le> CHR ''9''"
  shows "digit_value c < 10" and "digit_char (digit_value c) = c"
  using char_digit_cases [OF assms]
  by (auto simp: digit_char_def digit_value_def)


declare digits.simps [simp del]

lemma digits_small: "n < 10 \<Longrightarrow> digits n = [digit_char n]"
  by (subst digits.simps) simp

lemma digits_step: "10 \<le> n \<Longrightarrow> digits n = digits (n div 10) @ [digit_char (n mod 10)]"
  by (subst digits.simps) simp

lemma digits_2:
  "n < 100 \<Longrightarrow> 10 \<le> n \<Longrightarrow> digits n = [digit_char (n div 10), digit_char (n mod 10)]"
  by (simp add: digits_step [of n] digits_small)

lemma digits_3: "n < 1000 \<Longrightarrow> 100 \<le> n \<Longrightarrow>
   digits n = [digit_char (n div 100), digit_char (n div 10 mod 10), digit_char (n mod 10)]"
  using digits_2 [of "n div 10"] by (simp add: digits_step [of n] div_mult2_eq [symmetric])

lemma digits_4: "n < 10000 \<Longrightarrow> 1000 \<le> n \<Longrightarrow>
   digits n = [digit_char (n div 1000), digit_char (n div 100 mod 10),
               digit_char (n div 10 mod 10), digit_char (n mod 10)]"
  using digits_3 [of "n div 10"] by (simp add: digits_step [of n] div_mult2_eq [symmetric])

lemma digit_char_0: "digit_char 0 = CHR ''0''"
  by (simp add: digit_char_def)

lemma replicate_small:
  "replicate 1 c = [c]" "replicate 2 c = [c, c]" "replicate 3 c = [c, c, c]"
  by (simp_all add: numeral_2_eq_2 numeral_3_eq_3)

lemma appendInt_nat:
  "appendInt (int n) w = replicate (w - length (digits n)) (CHR ''0'') @ digits n"
  by (simp add: appendInt_def)

lemma appendInt_1: "n < 10 \<Longrightarrow> appendInt (int n) 1 = [digit_char n]"
  by (simp add: appendInt_nat digits_small)

lemma appendInt_2:
  "n < 100 \<Longrightarrow> appendInt (int n) 2 = [digit_char (n div 10), digit_char (n mod 10)]"
  by (cases "n < 10")
    (simp_all add: appendInt_nat digits_small digits_2 digit_char_0 replicate_small)

lemma appendInt_4:
  assumes "n < 10000"
  shows "appendInt (int n) 4 = [digit_char (n div 1000), digit_char (n div 100 mod 10),
               digit_char (n div 10 mod 10), digit_char (n mod 10)]"
proof -
  consider "n < 10" | "10 \<le> n" "n < 100" | "100 \<le> n" "n < 1000" | "1000 \<le> n"
    by linarith
  then show ?thesis
  proof cases
    case 1
    then show ?thesis
      by (simp add: appendInt_nat digits_small digit_char_0 replicate_small)
  next
    case 2
    then show ?thesis
      by (simp add: appendInt_nat digits_2 digit_char_0 replicate_small)
  next
    case 3
    then show ?thesis
      by (simp add: appendInt_nat digits_3 digit_char_0 replicate_small)
  next
    case 4
    then show ?thesis using assms
      by (simp add: appendInt_nat digits_4)
  qed
qed


lemma isDigit_Cons0: "isDigit (c # s) 0 = (CHR ''0'' \<le> c \<and> c \<le> CHR ''9'')"
  by (simp add: isDigit_def)

lemma isDigit_Cons1: "isDigit (c # s) (Suc 0) = isDigit s 0"
  by (simp add: isDigit_def)

lemma isDigit_Nil: "isDigit [] i = False"
  by (simp add: isDigit_def)

lemma getnum_two:
  "a < 10 \<Longrightarrow> b < 10 \<Longrightarrow>
   getnum (digit_char a # digit_char b # rest) fixed = Some (a * 10 + b, rest)"
  by (simp add: getnum_def isDigit_def digit_char_props)

lemma digit_char_not_less:
  "a < 10 \<Longrightarrow> \<not> digit_char a < CHR ''0''" "a < 10 \<Longrightarrow> \<not> CHR ''9'' < digit_char a"
  by (simp_all add: not_less digit_char_props)

lemma leadingInt_digit:
  "a < 10 \<Longrightarrow> leadingInt (digit_char a # s) x = leadingInt s (x * 10 + a)"
  by (simp add: digit_char_props(1) digit_char_not_less)

lemma atoi_four:
  assumes "a < 10" "b < 10" "c < 10" "e < 10"
  shows "atoi [digit_char a, digit_char b, digit_char c, digit_char e] =
     Some (int (a * 1000 + b * 100 + c * 10 + e))"
  using assms by (simp add: atoi_def leadingInt_digit digit_char_props del: leadingInt.simps(2))

lemma skip_sep: "p \<noteq> CHR '' '' \<Longrightarrow> skip (p # v) [p] = Some v"
  by simp

lemma skip_blank_digit:
  "a < 10 \<Longrightarrow> skip (CHR '' '' # digit_char a # v) '' '' = Some (digit_char a # v)"
  by (simp add: cutspace_def digit_char_props)

lemma fraction_Nil: "fraction [] = Some (0, [])"
  by (simp add: fraction_def)

lemma decimal_2: "n div 10 * 10 + n mod 10 = (n::nat)"
  by simp

lemma decimal_4:
  assumes "n < 10000"
  shows "n div 1000 * 1000 + n div 100 mod 10 * 100 + n div 10 mod 10 * 10 + n mod 10 = (n::nat)"
proof -
  have a: "n div 100 = n div 10 div 10" "n div 1000 = n div 10 div 10 div 10"
    by (simp_all add: div_mult2_eq [symmetric])
  have b: "n = n div 10 * 10 + n mod 10" by simp
  have c: "n div 10 = n div 10 div 10 * 10 + n div 10 mod 10" by simp
  have d: "n div 10 div 10 = n div 10 div 10 div 10 * 10 + n div 10 div 10 mod 10" by simp
  show ?thesis unfolding a using b c d by linarith
qed

lemma daysIn_le: "1 \<le> m \<Longrightarrow> m \<le> 12 \<Longrightarrow> daysIn m y \<le> 31"
proof -
  assume "1 \<le> m" "m \<le> 12"
  then have "m = 1 \<or> m = 2 \<or> m = 3 \<or> m = 4 \<or> m = 5 \<or> m = 6 \<or> m = 7 \<or> m = 8 \<or> m = 9 \<or>
    m = 10 \<or> m = 11 \<or> m = 12" by arith
  then show ?thesis by (auto simp: daysIn_def)
qed

subsection \<open>The temporal value: what is formatted is parsed back\<close>

lemma Parse_canonical:
  assumes dg: "a1 < 10" "a2 < 10" "a3 < 10" "a4 < 10" "m1 < 10" "m2 < 10" "d1 < 10" "d2 < 10"
    "h1 < 10" "h2 < 10" "i1 < 10" "i2 < 10" "s1 < 10" "s2 < 10"
    and rg: "0 < m1 * 10 + m2" "m1 * 10 + m2 \<le> 12" "h1 * 10 + h2 < 24" "i1 * 10 + i2 < 60"
    "s1 * 10 + s2 < 60" "1 \<le> d1 * 10 + d2"
    "d1 * 10 + d2 \<le> daysIn (m1 * 10 + m2) (int (a1 * 1000 + a2 * 100 + a3 * 10 + a4))"
  shows "Parse (digit_char a1 # digit_char a2 # digit_char a3 # digit_char a4 # CHR ''-'' #
      digit_char m1 # digit_char m2 # CHR ''-'' # digit_char d1 # digit_char d2 # CHR '' '' #
      digit_char h1 # digit_char h2 # CHR '':'' # digit_char i1 # digit_char i2 # CHR '':'' #
      [digit_char s1, digit_char s2]) =
    Some \<lparr>Year = int (a1 * 1000 + a2 * 100 + a3 * 10 + a4), Month = m1 * 10 + m2,
          Day = d1 * 10 + d2, Hour = h1 * 10 + h2, Minute = i1 * 10 + i2,
          Second = s1 * 10 + s2, Nanosecond = 0\<rparr>"
proof -
  have y: "atoi [digit_char a1, digit_char a2, digit_char a3, digit_char a4] =
     Some (int (a1 * 1000 + a2 * 100 + a3 * 10 + a4))"
    using dg by (intro atoi_four)
  have first: "CHR ''0'' \<le> digit_char a1" "digit_char a1 \<le> CHR ''9''"
    using dg by (simp_all add: digit_char_props)
  have sk: "skip (CHR ''-'' # v) ''-'' = Some v" "skip (CHR '':'' # v) '':'' = Some v" for v
    by (simp_all add: skip_sep)
  show ?thesis
    unfolding Parse_def
    using rg
    by (simp add: isDigit_Cons0 first ensure_def y sk getnum_two dg
        skip_blank_digit fraction_Nil del: skip.simps)
qed


lemma Format_canonical:
  assumes v: "valid_Time t"
  shows "Format t =
    digit_char (nat (Year t) div 1000) # digit_char (nat (Year t) div 100 mod 10) #
    digit_char (nat (Year t) div 10 mod 10) # digit_char (nat (Year t) mod 10) # CHR ''-'' #
    digit_char (Month t div 10) # digit_char (Month t mod 10) # CHR ''-'' #
    digit_char (Day t div 10) # digit_char (Day t mod 10) # CHR '' '' #
    digit_char (Hour t div 10) # digit_char (Hour t mod 10) # CHR '':'' #
    digit_char (Minute t div 10) # digit_char (Minute t mod 10) # CHR '':'' #
    [digit_char (Second t div 10), digit_char (Second t mod 10)]"
proof -
  have y: "Year t = int (nat (Year t))" "nat (Year t) < 10000"
    using v by (auto simp: valid_Time_def)
  have "Day t \<le> 31"
    using v daysIn_le [of "Month t" "Year t"] by (simp add: valid_Time_def)
  then have r: "Month t < 100" "Day t < 100" "Hour t < 100" "Minute t < 100" "Second t < 100"
    using v by (auto simp: valid_Time_def)
  have "Format t = appendInt (int (nat (Year t))) 4 @ ''-'' @ appendInt (int (Month t)) 2 @
     ''-'' @ appendInt (int (Day t)) 2 @ '' '' @ appendInt (int (Hour t)) 2 @ '':'' @
     appendInt (int (Minute t)) 2 @ '':'' @ appendInt (int (Second t)) 2"
    unfolding Format_def using y(1) by simp
  then show ?thesis
    unfolding appendInt_4 [OF y(2)] appendInt_2 [OF r(1)] appendInt_2 [OF r(2)]
      appendInt_2 [OF r(3)] appendInt_2 [OF r(4)] appendInt_2 [OF r(5)]
    by simp
qed

lemma Parse_Format:
  assumes v: "valid_Time t" and ns: "Nanosecond t = 0"
  shows "Parse (Format t) = Some t"
proof -
  let ?y = "nat (Year t)"
  have y: "Year t = int ?y" "?y < 10000"
    using v by (auto simp: valid_Time_def)
  have "Day t \<le> 31"
    using v daysIn_le [of "Month t" "Year t"] by (simp add: valid_Time_def)
  then have r: "Month t < 100" "Day t < 100" "Hour t < 100" "Minute t < 100" "Second t < 100"
    using v by (auto simp: valid_Time_def)
  have dg: "?y div 1000 < 10" "?y div 100 mod 10 < 10" "?y div 10 mod 10 < 10" "?y mod 10 < 10"
    "Month t div 10 < 10" "Month t mod 10 < 10" "Day t div 10 < 10" "Day t mod 10 < 10"
    "Hour t div 10 < 10" "Hour t mod 10 < 10" "Minute t div 10 < 10" "Minute t mod 10 < 10"
    "Second t div 10 < 10" "Second t mod 10 < 10"
    using y(2) r by simp_all
  have yy: "?y div 1000 * 1000 + ?y div 100 mod 10 * 100 + ?y div 10 mod 10 * 10 + ?y mod 10 = ?y"
    using y(2) by (rule decimal_4)
  have rg: "0 < Month t div 10 * 10 + Month t mod 10" "Month t div 10 * 10 + Month t mod 10 \<le> 12"
    "Hour t div 10 * 10 + Hour t mod 10 < 24" "Minute t div 10 * 10 + Minute t mod 10 < 60"
    "Second t div 10 * 10 + Second t mod 10 < 60" "1 \<le> Day t div 10 * 10 + Day t mod 10"
    "Day t div 10 * 10 + Day t mod 10 \<le> daysIn (Month t div 10 * 10 + Month t mod 10)
       (int (?y div 1000 * 1000 + ?y div 100 mod 10 * 100 + ?y div 10 mod 10 * 10 + ?y mod 10))"
    unfolding yy decimal_2 using v y(1) by (simp_all add: valid_Time_def)
  have "Parse (Format t) =
    Some \<lparr>Year = int (?y div 1000 * 1000 + ?y div 100 mod 10 * 100 + ?y div 10 mod 10 * 10 + ?y mod 10),
          Month = Month t div 10 * 10 + Month t mod 10,
          Day = Day t div 10 * 10 + Day t mod 10, Hour = Hour t div 10 * 10 + Hour t mod 10,
          Minute = Minute t div 10 * 10 + Minute t mod 10,
          Second = Second t div 10 * 10 + Second t mod 10, Nanosecond = 0\<rparr>"
    unfolding Format_canonical [OF v] by (rule Parse_canonical [OF dg rg])
  also have "\<dots> = Some t"
    unfolding yy decimal_2 using y(1) ns by simp
  finally show ?thesis .
qed

lemma Unquote_Quote:
  "list_all plain_char s \<Longrightarrow> Unquote sc (Quote sc s) = Some s"
proof -
  assume p: "list_all plain_char s"
  then have "concat (map (\<lambda>c. if plain_char c then [c] else escape sc c) s) = s"
    by (induction s) auto
  then have q: "Quote sc s = CHR 0x22 # s @ [CHR 0x22]"
    by (simp add: Quote_def)
  show ?thesis
    unfolding q using p by (simp add: Unquote_def butlast_append)
qed

lemma plain_separators:
  "plain_char (CHR ''-'')" "plain_char (CHR '' '')" "plain_char (CHR '':'')"
  by (simp_all add: plain_char_def)

lemma Format_plain: "valid_Time t \<Longrightarrow> list_all plain_char (Format t)"
proof -
  assume v: "valid_Time t"
  have "\<And>n::nat. plain_char (digit_char (n mod 10))"
    by (simp add: digit_char_props)
  moreover have "nat (Year t) div 1000 < 10" "Month t div 10 < 10" "Day t div 10 < 10"
    "Hour t div 10 < 10" "Minute t div 10 < 10" "Second t div 10 < 10"
    using v daysIn_le [of "Month t" "Year t"] by (auto simp: valid_Time_def)
  ultimately show ?thesis
    unfolding Format_canonical [OF v] by (simp add: digit_char_props plain_separators)
qed

lemma roundtrip:
  assumes "valid_Time t" "Nanosecond t = 0"
  shows "UnmarshalJSON sc (MarshalJSON sc t) = Inr t"
  using assms
  by (simp add: UnmarshalJSON_def MarshalJSON_def Unquote_Quote Format_plain Parse_Format)

subsection \<open>The temporal value: what is parsed had the form of the layout\<close>

lemma isDigit_0_iff: "isDigit s 0 = (\<exists>c r. s = c # r \<and> CHR ''0'' \<le> c \<and> c \<le> CHR ''9'')"
  by (cases s) (auto simp: isDigit_def)

lemma getnum_inv:
  assumes "getnum s fixed = Some (n, r)"
  shows "(n < 100 \<and> s = digit_char (n div 10) # digit_char (n mod 10) # r) \<or>
         (\<not> fixed \<and> n < 10 \<and> s = digit_char n # r)"
proof -
  from assms obtain c s' where s: "s = c # s'" and c: "CHR ''0'' \<le> c" "c \<le> CHR ''9''"
    by (auto simp: getnum_def isDigit_0_iff split: if_splits)
  note cv = digit_value_props [OF c]
  show ?thesis
  proof (cases "isDigit s' 0")
    case True
    then obtain e s'' where s': "s' = e # s''" and e: "CHR ''0'' \<le> e" "e \<le> CHR ''9''"
      by (auto simp: isDigit_0_iff)
    note ev = digit_value_props [OF e]
    from assms s s' c e have n: "n = digit_value c * 10 + digit_value e" and r: "r = s''"
      by (auto simp: getnum_def isDigit_def)
    have "n div 10 = digit_value c" "n mod 10 = digit_value e" "n < 100"
      using n cv(1) ev(1) by auto
    then show ?thesis using s s' r cv(2) ev(2) by simp
  next
    case False
    with assms s c have "\<not> fixed" "n = digit_value c" "r = s'"
      by (auto simp: getnum_def isDigit_def split: if_splits)
    then show ?thesis using s cv by simp
  qed
qed

lemma skip_sep_inv: "p \<noteq> CHR '' '' \<Longrightarrow> skip v [p] = Some r \<Longrightarrow> v = p # r"
  by (cases v) (auto split: if_splits)

lemma skip_blank_inv:
  assumes "skip v '' '' = Some r" "r \<noteq> []"
  shows "\<exists>k. v = replicate (Suc k) (CHR '' '') @ r"
proof -
  from assms(1) have r: "r = dropWhile (\<lambda>c. c = CHR '' '') v" and h: "v = [] \<or> hd v = CHR '' ''"
    by (auto simp: cutspace_def split: if_splits)
  have v: "v = takeWhile (\<lambda>c. c = CHR '' '') v @ r"
    unfolding r by simp
  have t: "takeWhile (\<lambda>c. c = CHR '' '') v =
      replicate (length (takeWhile (\<lambda>c. c = CHR '' '') v)) (CHR '' '')"
    by (intro replicate_length_same [symmetric]) (auto dest: set_takeWhileD)
  from assms(2) r have "v \<noteq> []" by auto
  with h obtain v' where "v = CHR '' '' # v'" by (cases v) auto
  then have "length (takeWhile (\<lambda>c. c = CHR '' '') v) \<noteq> 0" by simp
  then obtain k where "length (takeWhile (\<lambda>c. c = CHR '' '') v) = Suc k"
    by (cases "length (takeWhile (\<lambda>c. c = CHR '' '') v)") auto
  with v t show ?thesis by metis
qed

lemma leadingInt_all:
  "leadingInt s x = (q, []) \<Longrightarrow>
   list_all (\<lambda>c. CHR ''0'' \<le> c \<and> c \<le> CHR ''9'') s \<and> q < (x + 1) * 10 ^ length s"
proof (induction s arbitrary: x)
  case Nil
  then show ?case by simp
next
  case (Cons c s)
  from Cons.prems have c: "CHR ''0'' \<le> c" "c \<le> CHR ''9''"
    and rest: "leadingInt s (x * 10 + digit_value c) = (q, [])"
    by (auto split: if_splits simp: not_less)
  from Cons.IH [OF rest] have a: "list_all (\<lambda>c. CHR ''0'' \<le> c \<and> c \<le> CHR ''9'') s"
    and b: "q < (x * 10 + digit_value c + 1) * 10 ^ length s" by simp_all
  have "digit_value c < 10" using c by (rule digit_value_props)
  then have "(x * 10 + digit_value c + 1) * 10 ^ length s \<le> ((x + 1) * 10) * 10 ^ length s"
    by (intro mult_right_mono) auto
  also have "\<dots> = (x + 1) * 10 ^ length (c # s)" by (simp add: algebra_simps)
  finally have le: "(x * 10 + digit_value c + 1) * 10 ^ length s \<le> (x + 1) * 10 ^ length (c # s)" .
  from b le have "q < (x + 1) * 10 ^ length (c # s)" by (rule less_le_trans)
  with a c show ?case by simp
qed

lemma div_mod_10:
  "x < 10 \<Longrightarrow> (y * 10 + x) div 10 = (y::nat)" "x < 10 \<Longrightarrow> (y * 10 + x) mod 10 = x"
  by simp_all

lemma leadingInt_four:
  assumes "leadingInt [a, b, c, e] 0 = (q, [])"
  shows "q < 10000 \<and>
    [a, b, c, e] = [digit_char (q div 1000), digit_char (q div 100 mod 10),
                    digit_char (q div 10 mod 10), digit_char (q mod 10)]"
proof -
  from leadingInt_all [OF assms] have
    d: "CHR ''0'' \<le> a" "a \<le> CHR ''9''" "CHR ''0'' \<le> b" "b \<le> CHR ''9''"
       "CHR ''0'' \<le> c" "c \<le> CHR ''9''" "CHR ''0'' \<le> e" "e \<le> CHR ''9''"
    by simp_all
  note va = digit_value_props [OF d(1,2)] and vb = digit_value_props [OF d(3,4)]
    and vc = digit_value_props [OF d(5,6)] and ve = digit_value_props [OF d(7,8)]
  from assms d have q: "q = ((digit_value a * 10 + digit_value b) * 10 + digit_value c) * 10
      + digit_value e"
    by (simp add: not_less [symmetric])
  have s1: "q div 10 = (digit_value a * 10 + digit_value b) * 10 + digit_value c"
    "q mod 10 = digit_value e"
    unfolding q by (rule div_mod_10 [OF ve(1)])+
  have s2: "q div 10 div 10 = digit_value a * 10 + digit_value b"
    "q div 10 mod 10 = digit_value c"
    unfolding s1 by (rule div_mod_10 [OF vc(1)])+
  have s3: "q div 10 div 10 div 10 = digit_value a" "q div 10 div 10 mod 10 = digit_value b"
    unfolding s2 by (rule div_mod_10 [OF vb(1)])+
  have e: "q div 100 = q div 10 div 10" "q div 1000 = q div 10 div 10 div 10"
    by (simp_all add: div_mult2_eq [symmetric])
  have f1: "q div 1000 = digit_value a" using e(2) s3(1) by (rule trans)
  have f2: "q div 100 mod 10 = digit_value b" unfolding e(1) by (rule s3(2))
  have "q < 10000" unfolding q using va(1) vb(1) vc(1) ve(1) by simp
  then show ?thesis unfolding f1 f2 s2(2) s1(2) va(2) vb(2) vc(2) ve(2) by simp
qed

lemma digit_not_sign:
  "CHR ''0'' \<le> c \<Longrightarrow> c \<noteq> CHR ''-'' \<and> c \<noteq> CHR ''+''"
  by (auto simp: less_eq_char_def)

lemma atoi_digits:
  assumes "atoi (c # s) = Some y" "CHR ''0'' \<le> c"
  shows "\<exists>q. y = int q \<and> leadingInt (c # s) 0 = (q, [])"
  using assms digit_not_sign [OF assms(2)]
  by (auto simp: atoi_def Let_def split: prod.splits if_splits simp del: leadingInt.simps)

lemma year_inv:
  assumes "4 \<le> length v" "isDigit v 0" "atoi (take 4 v) = Some y"
  shows "\<exists>n. y = int n \<and> n < 10000 \<and>
    v = digit_char (n div 1000) # digit_char (n div 100 mod 10) #
        digit_char (n div 10 mod 10) # digit_char (n mod 10) # drop 4 v"
proof -
  from assms(1) obtain a b c e r where v: "v = a # b # c # e # r"
    by (cases v rule: list.exhaust; simp)
      (metis Suc_le_length_iff numeral_3_eq_3 One_nat_def Suc_1)
  from assms(2) v have a: "CHR ''0'' \<le> a" by (simp add: isDigit_def)
  from assms(3) v have "atoi [a, b, c, e] = Some y" by simp
  from atoi_digits [OF this a] obtain q where q: "y = int q" "leadingInt [a, b, c, e] 0 = (q, [])"
    by blast
  from leadingInt_four [OF q(2)] q(1) v show ?thesis by auto
qed

lemma fraction_inv:
  assumes "fraction v = Some (ns, [])"
  shows "(v = [] \<and> ns = 0) \<or>
    (\<exists>sep ds. v = sep # ds \<and> commaOrPeriod sep \<and> ds \<noteq> [] \<and>
       list_all (\<lambda>c. CHR ''0'' \<le> c \<and> c \<le> CHR ''9'') ds \<and> ns < 1000000000)"
proof (cases "2 \<le> length v \<and> commaOrPeriod (v ! 0) \<and> isDigit v 1")
  case False
  with assms show ?thesis by (auto simp: fraction_def split: if_splits)
next
  case True
  then obtain sep d1 rest where v: "v = sep # d1 # rest"
    by (cases v; cases "tl v") auto
  let ?dig = "\<lambda>c. CHR ''0'' \<le> c \<and> c \<le> CHR ''9''"
  let ?n = "2 + length (takeWhile ?dig rest)"
  from True v have sep: "commaOrPeriod sep" and d1: "?dig d1"
    by (simp_all add: isDigit_def)
  from assms True v have pn: "parseNanoseconds v ?n = Some ns" and dr: "drop ?n v = []"
    by (auto simp: fraction_def Let_def)
  from dr v have "length (takeWhile ?dig rest) = length rest"
    using length_takeWhile_le [of ?dig rest] by simp
  then have tw: "takeWhile ?dig rest = rest"
    by (metis takeWhile_eq_take take_all order_refl)
  then have all: "list_all ?dig rest"
    by (metis (mono_tags, lifting) list_all_iff set_takeWhileD)
  have n: "?n = length v" unfolding tw using v by simp
  let ?nb = "if length v > 10 then 10 else length v"
  let ?arg = "take (?nb - 1) (drop 1 (if length v > 10 then take 10 v else v))"
  from pn sep v n obtain y where y: "atoi ?arg = Some y" "0 \<le> y"
    "ns = nat y * 10 ^ (10 - ?nb)"
    by (auto simp: parseNanoseconds_def Let_def split: option.splits if_splits)
  have arg: "?arg = d1 # take (?nb - 2) rest"
    using v by (auto simp: take_Cons' drop_Cons' numeral_eq_Suc)
  have len: "length ?arg = ?nb - 1"
    using v by auto
  from y(1) arg d1 obtain q where q: "y = int q" "leadingInt ?arg 0 = (q, [])"
    using atoi_digits [of d1 "take (?nb - 2) rest" y] by auto
  from leadingInt_all [OF q(2)] len have "q < 10 ^ (?nb - 1)" by simp
  then have "q * 10 ^ (10 - ?nb) < 10 ^ (?nb - 1) * 10 ^ (10 - ?nb)"
    by simp
  also have "\<dots> = (10::nat) ^ 9"
    using v by (simp add: power_add [symmetric])
  finally have "ns < 1000000000" using y(3) q(1) by simp
  with v sep d1 all show ?thesis by auto
qed

lemma ensure_Some: "(ensure ok = Some u) = ok"
  by (simp add: ensure_def)

lemma Parse_stages:
  assumes "Parse v0 = Some t"
  shows "\<exists>y v1 m v2 v3 dd v4 v5 h v6 v7 mi v8 v9 s v10 ns.
    4 \<le> length v0 \<and> isDigit v0 0 \<and> atoi (take 4 v0) = Some y \<and>
    skip (drop 4 v0) ''-'' = Some v1 \<and> getnum v1 True = Some (m, v2) \<and> 0 < m \<and> m \<le> 12 \<and>
    skip v2 ''-'' = Some v3 \<and> getnum v3 True = Some (dd, v4) \<and>
    skip v4 '' '' = Some v5 \<and> getnum v5 False = Some (h, v6) \<and> h < 24 \<and>
    skip v6 '':'' = Some v7 \<and> getnum v7 True = Some (mi, v8) \<and> mi < 60 \<and>
    skip v8 '':'' = Some v9 \<and> getnum v9 True = Some (s, v10) \<and> s < 60 \<and>
    fraction v10 = Some (ns, []) \<and> 1 \<le> dd \<and> dd \<le> daysIn m y \<and>
    t = \<lparr>Year = y, Month = m, Day = dd, Hour = h, Minute = mi, Second = s, Nanosecond = ns\<rparr>"
  using assms unfolding Parse_def
  by (simp only: bind_eq_Some_conv ensure_Some split_paired_Ex prod.case option.inject)
    blast


lemma getnum_nonempty: "getnum v fixed = Some x \<Longrightarrow> v \<noteq> []"
  by (auto simp: getnum_def isDigit_def split: if_splits)

lemma Parse_shape:
  assumes "Parse v0 = Some t"
  shows "valid_Time t \<and>
    (\<exists>k hh frac.
       v0 = appendInt (Year t) 4 @ ''-'' @ appendInt (int (Month t)) 2 @ ''-'' @
            appendInt (int (Day t)) 2 @ replicate (Suc k) (CHR '' '') @ hh @ '':'' @
            appendInt (int (Minute t)) 2 @ '':'' @ appendInt (int (Second t)) 2 @ frac \<and>
       (hh = appendInt (int (Hour t)) 2 \<or> hh = appendInt (int (Hour t)) 1) \<and>
       (frac = [] \<and> Nanosecond t = 0 \<or>
        (\<exists>sep ds. frac = sep # ds \<and> (sep = CHR ''.'' \<or> sep = CHR '','') \<and> ds \<noteq> [] \<and>
           list_all (\<lambda>c. CHR ''0'' \<le> c \<and> c \<le> CHR ''9'') ds)))"
proof -
  from Parse_stages [OF assms] obtain y v1 m v2 v3 dd v4 v5 h v6 v7 mi v8 v9 s v10 ns where
    st: "4 \<le> length v0" "isDigit v0 0" "atoi (take 4 v0) = Some y"
    "skip (drop 4 v0) ''-'' = Some v1" "getnum v1 True = Some (m, v2)" "0 < m" "m \<le> 12"
    "skip v2 ''-'' = Some v3" "getnum v3 True = Some (dd, v4)"
    "skip v4 '' '' = Some v5" "getnum v5 False = Some (h, v6)" "h < 24"
    "skip v6 '':'' = Some v7" "getnum v7 True = Some (mi, v8)" "mi < 60"
    "skip v8 '':'' = Some v9" "getnum v9 True = Some (s, v10)" "s < 60"
    "fraction v10 = Some (ns, [])" "1 \<le> dd" "dd \<le> daysIn m y"
    and t: "t = \<lparr>Year = y, Month = m, Day = dd, Hour = h, Minute = mi, Second = s,
                  Nanosecond = ns\<rparr>"
    by blast
  from year_inv [OF st(1-3)] obtain n where n: "y = int n" "n < 10000"
    "v0 = digit_char (n div 1000) # digit_char (n div 100 mod 10) #
        digit_char (n div 10 mod 10) # digit_char (n mod 10) # drop 4 v0"
    by blast
  have p0: "v0 = appendInt y 4 @ drop 4 v0"
    unfolding n(1) appendInt_4 [OF n(2)] using n(3) by simp
  have p1: "drop 4 v0 = CHR ''-'' # v1" using st(4) by (intro skip_sep_inv) auto
  have p2: "v1 = appendInt (int m) 2 @ v2"
    using getnum_inv [OF st(5)] by (auto simp: appendInt_2)
  have p3: "v2 = CHR ''-'' # v3" using st(8) by (intro skip_sep_inv) auto
  have p4: "v3 = appendInt (int dd) 2 @ v4"
    using getnum_inv [OF st(9)] by (auto simp: appendInt_2)
  from skip_blank_inv [OF st(10) getnum_nonempty [OF st(11)]] obtain k where
    p5: "v4 = replicate (Suc k) (CHR '' '') @ v5" by blast
  from getnum_inv [OF st(11)] consider
    (two) "h < 100" "v5 = digit_char (h div 10) # digit_char (h mod 10) # v6" |
    (one) "h < 10" "v5 = digit_char h # v6"
    by blast
  then obtain hh where
    p6: "v5 = hh @ v6" "hh = appendInt (int h) 2 \<or> hh = appendInt (int h) 1"
  proof cases
    case two
    then have "v5 = appendInt (int h) 2 @ v6" by (simp add: appendInt_2)
    then show ?thesis using that by blast
  next
    case one
    then have "v5 = appendInt (int h) 1 @ v6" by (simp only: appendInt_1 append_Cons append_Nil)
    then show ?thesis using that by blast
  qed
  have p7: "v6 = CHR '':'' # v7" using st(13) by (intro skip_sep_inv) auto
  have p8: "v7 = appendInt (int mi) 2 @ v8"
    using getnum_inv [OF st(14)] by (auto simp: appendInt_2)
  have p9: "v8 = CHR '':'' # v9" using st(16) by (intro skip_sep_inv) auto
  have p10: "v9 = appendInt (int s) 2 @ v10"
    using getnum_inv [OF st(17)] by (auto simp: appendInt_2)
  from fraction_inv [OF st(19)] have
    p11: "(v10 = [] \<and> ns = 0) \<or>
      (\<exists>sep ds. v10 = sep # ds \<and> (sep = CHR ''.'' \<or> sep = CHR '','') \<and> ds \<noteq> [] \<and>
         list_all (\<lambda>c. CHR ''0'' \<le> c \<and> c \<le> CHR ''9'') ds)"
    and nsb: "ns < 1000000000"
    by (auto simp: commaOrPeriod_def)
  have whole: "v0 = appendInt y 4 @ ''-'' @ appendInt (int m) 2 @ ''-'' @
      appendInt (int dd) 2 @ replicate (Suc k) (CHR '' '') @ hh @ '':'' @
      appendInt (int mi) 2 @ '':'' @ appendInt (int s) 2 @ v10"
    by (subst p0, subst p1, subst p2, subst p3, subst p4, subst p5, subst p6(1), subst p7,
        subst p8, subst p9, subst p10) simp
  have valid: "valid_Time t"
    unfolding t valid_Time_def using st n(1,2) nsb by simp
  have w: "v0 = appendInt (Year t) 4 @ ''-'' @ appendInt (int (Month t)) 2 @ ''-'' @
      appendInt (int (Day t)) 2 @ replicate (Suc k) (CHR '' '') @ hh @ '':'' @
      appendInt (int (Minute t)) 2 @ '':'' @ appendInt (int (Second t)) 2 @ v10"
    using whole unfolding t by simp
  have hh: "hh = appendInt (int (Hour t)) 2 \<or> hh = appendInt (int (Hour t)) 1"
    using p6(2) unfolding t by simp
  have fr: "v10 = [] \<and> Nanosecond t = 0 \<or>
      (\<exists>sep ds. v10 = sep # ds \<and> (sep = CHR ''.'' \<or> sep = CHR '','') \<and> ds \<noteq> [] \<and>
         list_all (\<lambda>c. CHR ''0'' \<le> c \<and> c \<le> CHR ''9'') ds)"
    using p11 unfolding t by simp
  from w hh fr valid show ?thesis by blast
qed

lemma UnmarshalJSON_error: "UnmarshalJSON sc j = Inl e \<Longrightarrow> e = ErrInvalidTimeFormat"
  by (auto simp: UnmarshalJSON_def split: option.splits)

lemma UnmarshalJSON_Inr:
  "UnmarshalJSON sc j = Inr t \<Longrightarrow> \<exists>s. Unquote sc j = Some s \<and> Parse s = Some t"
  by (auto simp: UnmarshalJSON_def split: option.splits)

subsection \<open>The temporal value: what has the form of the layout is parsed\<close>

lemma skip_blanks_digit:
  "a < 10 \<Longrightarrow>
   skip (replicate (Suc k) (CHR '' '') @ digit_char a # v) '' '' = Some (digit_char a # v)"
proof -
  assume a: "a < 10"
  have "dropWhile (\<lambda>c. c = CHR '' '') (replicate (Suc k) (CHR '' '') @ digit_char a # v) =
      digit_char a # v"
    using digit_char_props(4) [OF a] by (simp add: dropWhile_append3)
  then show ?thesis by (simp add: cutspace_def)
qed

lemma getnum_one:
  "a < 10 \<Longrightarrow> getnum (digit_char a # CHR '':'' # v) False = Some (a, CHR '':'' # v)"
proof -
  assume a: "a < 10"
  have "\<not> CHR '':'' \<le> CHR ''9''" by (simp add: less_eq_char_def)
  then show ?thesis using a by (simp add: getnum_def isDigit_def digit_char_props)
qed

lemma leadingInt_foldl:
  "list_all (\<lambda>c. CHR ''0'' \<le> c \<and> c \<le> CHR ''9'') s \<Longrightarrow>
   leadingInt s x = (foldl (\<lambda>x c. x * 10 + digit_value c) x s, [])"
  by (induction s arbitrary: x) (auto simp: not_less [symmetric])

lemma atoi_decimal:
  assumes "list_all (\<lambda>c. CHR ''0'' \<le> c \<and> c \<le> CHR ''9'') s" "s \<noteq> []"
  shows "atoi s = Some (int (decimal s))"
proof -
  from assms obtain c s' where s: "s = c # s'" and c: "CHR ''0'' \<le> c" by (cases s) auto
  from leadingInt_foldl [OF assms(1)] have "leadingInt s 0 = (decimal s, [])"
    by (simp add: decimal_def)
  then show ?thesis
    using digit_not_sign [OF c] unfolding s
    by (auto simp: atoi_def Let_def simp del: leadingInt.simps)
qed

lemma fraction_value:
  assumes sep: "sep = CHR ''.'' \<or> sep = CHR '',''" and ds: "ds \<noteq> []"
    and dig: "list_all (\<lambda>c. CHR ''0'' \<le> c \<and> c \<le> CHR ''9'') ds"
  shows "fraction (sep # ds) = Some (nanoseconds_of ds, [])"
proof -
  from ds obtain d1 rest where d: "ds = d1 # rest" by (cases ds) auto
  let ?dig = "\<lambda>c. CHR ''0'' \<le> c \<and> c \<le> CHR ''9''"
  let ?v = "sep # ds"
  have tw: "takeWhile ?dig rest = rest" using dig d by (simp add: takeWhile_eq_all_conv list_all_iff)
  have cond: "2 \<le> length ?v \<and> commaOrPeriod (?v ! 0) \<and> isDigit ?v 1"
    using sep dig d by (auto simp: commaOrPeriod_def isDigit_def)
  let ?n = "2 + length (takeWhile ?dig (drop 2 ?v))"
  have n: "?n = length ?v" unfolding d drop_Suc_Cons numeral_2_eq_2 drop_0 tw by simp
  let ?nb = "if length ?v > 10 then 10 else length ?v"
  let ?arg = "take (?nb - 1) (drop 1 (if length ?v > 10 then take 10 ?v else ?v))"
  have arg: "?arg = take 9 ds" by (auto simp: take_Cons' drop_Cons')
  have scale: "10 - ?nb = 9 - length (take 9 ds)" by auto
  have "list_all ?dig (take 9 ds)" using dig by (auto simp: list_all_iff dest: in_set_takeD)
  moreover have "take 9 ds \<noteq> []" using d by simp
  ultimately have q: "atoi ?arg = Some (int (decimal (take 9 ds)))"
    unfolding arg by (rule atoi_decimal)
  have "parseNanoseconds ?v (length ?v) = Some (decimal (take 9 ds) * 10 ^ (10 - ?nb))"
    using sep q by (simp add: parseNanoseconds_def Let_def commaOrPeriod_def)
  then have "fraction ?v = Some (decimal (take 9 ds) * 10 ^ (10 - ?nb), [])"
    unfolding fraction_def using cond n by (simp add: Let_def)
  then show ?thesis unfolding scale nanoseconds_of_def .
qed

lemma Parse_accepts:
  assumes dg: "a1 < 10" "a2 < 10" "a3 < 10" "a4 < 10" "m1 < 10" "m2 < 10" "d1 < 10" "d2 < 10"
    "i1 < 10" "i2 < 10" "s1 < 10" "s2 < 10"
    and rg: "0 < m1 * 10 + m2" "m1 * 10 + m2 \<le> 12" "h < 24" "i1 * 10 + i2 < 60"
    "s1 * 10 + s2 < 60" "1 \<le> d1 * 10 + d2"
    "d1 * 10 + d2 \<le> daysIn (m1 * 10 + m2) (int (a1 * 1000 + a2 * 100 + a3 * 10 + a4))"
    and hh: "hh = [digit_char (h div 10), digit_char (h mod 10)] \<or> (h < 10 \<and> hh = [digit_char h])"
    and fr: "fraction fr = Some (ns, [])"
  shows "Parse (digit_char a1 # digit_char a2 # digit_char a3 # digit_char a4 # CHR ''-'' #
      digit_char m1 # digit_char m2 # CHR ''-'' # digit_char d1 # digit_char d2 #
      replicate (Suc k) (CHR '' '') @ hh @ CHR '':'' # digit_char i1 # digit_char i2 #
      CHR '':'' # digit_char s1 # digit_char s2 # fr) =
    Some \<lparr>Year = int (a1 * 1000 + a2 * 100 + a3 * 10 + a4), Month = m1 * 10 + m2,
          Day = d1 * 10 + d2, Hour = h, Minute = i1 * 10 + i2,
          Second = s1 * 10 + s2, Nanosecond = ns\<rparr>"
proof -
  have y: "atoi [digit_char a1, digit_char a2, digit_char a3, digit_char a4] =
     Some (int (a1 * 1000 + a2 * 100 + a3 * 10 + a4))"
    using dg by (intro atoi_four)
  have first: "CHR ''0'' \<le> digit_char a1" "digit_char a1 \<le> CHR ''9''"
    using dg by (simp_all add: digit_char_props)
  have sk: "skip (CHR ''-'' # v) ''-'' = Some v" "skip (CHR '':'' # v) '':'' = Some v" for v
    by (simp_all add: skip_sep)
  have hd10: "h div 10 < 10" "h mod 10 < 10" using rg(3) by simp_all
  have hour: "\<exists>c r. hh @ CHR '':'' # w = digit_char c # r \<and> c < 10 \<and>
      getnum (digit_char c # r) False = Some (h, CHR '':'' # w)" for w
  proof -
    from hh show ?thesis
    proof
      assume "hh = [digit_char (h div 10), digit_char (h mod 10)]"
      then show ?thesis
        using getnum_two [OF hd10, of "CHR '':'' # w" False] hd10 by auto
    next
      assume "h < 10 \<and> hh = [digit_char h]"
      then show ?thesis using getnum_one [of h w] by auto
    qed
  qed
  let ?w = "digit_char i1 # digit_char i2 # CHR '':'' # digit_char s1 # digit_char s2 # fr"
  from hour [of ?w] obtain c r where
    c: "hh @ CHR '':'' # ?w = digit_char c # r" "c < 10"
    "getnum (digit_char c # r) False = Some (h, CHR '':'' # ?w)"
    by blast
  have blanks: "skip (replicate (Suc k) (CHR '' '') @ hh @ CHR '':'' # ?w) '' '' =
      Some (digit_char c # r)"
    unfolding c(1) using c(2) by (rule skip_blanks_digit)
  show ?thesis
    unfolding Parse_def
    using rg blanks c(3)
    by (simp add: isDigit_Cons0 first ensure_def y sk getnum_two dg fr del: skip.simps replicate.simps)
qed

lemma appendInt_1_two:
  "10 \<le> n \<Longrightarrow> n < 100 \<Longrightarrow>
   appendInt (int n) 1 = [digit_char (n div 10), digit_char (n mod 10)]"
  by (simp add: appendInt_nat digits_2)

lemma plain_digit: "CHR ''0'' \<le> c \<Longrightarrow> c \<le> CHR ''9'' \<Longrightarrow> plain_char c"
  using digit_value_props [of c] digit_char_props(8) [of "digit_value c"] by auto

lemma Parse_accepts_Time:
  assumes v: "valid_Time t"
    and hh: "hh = appendInt (int (Hour t)) 2 \<or> hh = appendInt (int (Hour t)) 1"
    and ns: "fraction fr = Some (ns, [])"
  shows "Parse
      (appendInt (Year t) 4 @ ''-'' @ appendInt (int (Month t)) 2 @ ''-'' @
       appendInt (int (Day t)) 2 @ replicate (Suc k) (CHR '' '') @ hh @ '':'' @
       appendInt (int (Minute t)) 2 @ '':'' @ appendInt (int (Second t)) 2 @ fr) =
    Some (t\<lparr>Nanosecond := ns\<rparr>) \<and>
    (list_all plain_char fr \<longrightarrow> list_all plain_char
      (appendInt (Year t) 4 @ ''-'' @ appendInt (int (Month t)) 2 @ ''-'' @
       appendInt (int (Day t)) 2 @ replicate (Suc k) (CHR '' '') @ hh @ '':'' @
       appendInt (int (Minute t)) 2 @ '':'' @ appendInt (int (Second t)) 2 @ fr))"
proof -
  let ?y = "nat (Year t)"
  have y: "Year t = int ?y" "?y < 10000"
    using v by (auto simp: valid_Time_def)
  have "Day t \<le> 31"
    using v daysIn_le [of "Month t" "Year t"] by (simp add: valid_Time_def)
  then have r: "Month t < 100" "Day t < 100" "Hour t < 100" "Minute t < 100" "Second t < 100"
    using v by (auto simp: valid_Time_def)
  have dg: "?y div 1000 < 10" "?y div 100 mod 10 < 10" "?y div 10 mod 10 < 10" "?y mod 10 < 10"
    "Month t div 10 < 10" "Month t mod 10 < 10" "Day t div 10 < 10" "Day t mod 10 < 10"
    "Minute t div 10 < 10" "Minute t mod 10 < 10"
    "Second t div 10 < 10" "Second t mod 10 < 10"
    using y(2) r by simp_all
  have hd: "Hour t div 10 < 10" "Hour t mod 10 < 10" using r by simp_all
  have yy: "?y div 1000 * 1000 + ?y div 100 mod 10 * 100 + ?y div 10 mod 10 * 10 + ?y mod 10 = ?y"
    using y(2) by (rule decimal_4)
  have rg: "0 < Month t div 10 * 10 + Month t mod 10" "Month t div 10 * 10 + Month t mod 10 \<le> 12"
    "Hour t < 24" "Minute t div 10 * 10 + Minute t mod 10 < 60"
    "Second t div 10 * 10 + Second t mod 10 < 60" "1 \<le> Day t div 10 * 10 + Day t mod 10"
    "Day t div 10 * 10 + Day t mod 10 \<le> daysIn (Month t div 10 * 10 + Month t mod 10)
       (int (?y div 1000 * 1000 + ?y div 100 mod 10 * 100 + ?y div 10 mod 10 * 10 + ?y mod 10))"
    unfolding yy decimal_2 using v y(1) by (simp_all add: valid_Time_def)
  have hh': "hh = [digit_char (Hour t div 10), digit_char (Hour t mod 10)] \<or>
      (Hour t < 10 \<and> hh = [digit_char (Hour t)])"
    using hh r(3) appendInt_2 [of "Hour t"] appendInt_1 [of "Hour t"]
      appendInt_1_two [of "Hour t"]
    by (cases "Hour t < 10") auto
  let ?s = "appendInt (Year t) 4 @ ''-'' @ appendInt (int (Month t)) 2 @ ''-'' @
       appendInt (int (Day t)) 2 @ replicate (Suc k) (CHR '' '') @ hh @ '':'' @
       appendInt (int (Minute t)) 2 @ '':'' @ appendInt (int (Second t)) 2 @ fr"
  have explicit: "?s =
      digit_char (?y div 1000) # digit_char (?y div 100 mod 10) #
      digit_char (?y div 10 mod 10) # digit_char (?y mod 10) # CHR ''-'' #
      digit_char (Month t div 10) # digit_char (Month t mod 10) # CHR ''-'' #
      digit_char (Day t div 10) # digit_char (Day t mod 10) #
      replicate (Suc k) (CHR '' '') @ hh @ CHR '':'' #
      digit_char (Minute t div 10) # digit_char (Minute t mod 10) # CHR '':'' #
      digit_char (Second t div 10) # digit_char (Second t mod 10) # fr"
    apply (subst y(1))
    unfolding appendInt_4 [OF y(2)] appendInt_2 [OF r(1)] appendInt_2 [OF r(2)]
      appendInt_2 [OF r(4)] appendInt_2 [OF r(5)]
    by simp
  have "Parse ?s =
    Some \<lparr>Year = int (?y div 1000 * 1000 + ?y div 100 mod 10 * 100 + ?y div 10 mod 10 * 10 + ?y mod 10),
          Month = Month t div 10 * 10 + Month t mod 10,
          Day = Day t div 10 * 10 + Day t mod 10, Hour = Hour t,
          Minute = Minute t div 10 * 10 + Minute t mod 10,
          Second = Second t div 10 * 10 + Second t mod 10, Nanosecond = ns\<rparr>"
    unfolding explicit by (rule Parse_accepts [OF dg rg hh' ns])
  also have "\<dots> = Some (t\<lparr>Nanosecond := ns\<rparr>)"
    unfolding yy decimal_2 using y(1) by simp
  finally have parse: "Parse ?s = Some (t\<lparr>Nanosecond := ns\<rparr>)" .
  have hhp: "list_all plain_char hh"
    using hh' hd by (auto simp: digit_char_props)
  have "list_all plain_char fr \<longrightarrow> list_all plain_char ?s"
    unfolding explicit using dg hhp
    by (auto simp: digit_char_props plain_separators list_all_iff)
  with parse show ?thesis by blast
qed

lemma fraction_plain:
  assumes "sep = CHR ''.'' \<or> sep = CHR '',''"
    "list_all (\<lambda>c. CHR ''0'' \<le> c \<and> c \<le> CHR ''9'') ds"
  shows "list_all plain_char (sep # ds)"
proof -
  have seps: "plain_char (CHR ''.'')" "plain_char (CHR '','')"
    by (simp_all add: plain_char_def)
  from assms(2) have "list_all plain_char ds"
    by (induction ds) (simp_all add: plain_digit)
  moreover have "plain_char sep" using assms(1) seps by blast
  ultimately show ?thesis by simp
qed

lemma UnmarshalJSON_accepts:
  assumes v: "valid_Time t"
    and hh: "hh = appendInt (int (Hour t)) 2 \<or> hh = appendInt (int (Hour t)) 1"
    and fr: "fr = [] \<and> ns = 0 \<or>
      (\<exists>sep ds. fr = sep # ds \<and> (sep = CHR ''.'' \<or> sep = CHR '','') \<and> ds \<noteq> [] \<and>
         list_all (\<lambda>c. CHR ''0'' \<le> c \<and> c \<le> CHR ''9'') ds \<and> ns = nanoseconds_of ds)"
  shows "UnmarshalJSON sc (Quote sc
      (appendInt (Year t) 4 @ ''-'' @ appendInt (int (Month t)) 2 @ ''-'' @
       appendInt (int (Day t)) 2 @ replicate (Suc k) (CHR '' '') @ hh @ '':'' @
       appendInt (int (Minute t)) 2 @ '':'' @ appendInt (int (Second t)) 2 @ fr)) =
    Inr (t\<lparr>Nanosecond := ns\<rparr>)"
proof -
  let ?s = "appendInt (Year t) 4 @ ''-'' @ appendInt (int (Month t)) 2 @ ''-'' @
       appendInt (int (Day t)) 2 @ replicate (Suc k) (CHR '' '') @ hh @ '':'' @
       appendInt (int (Minute t)) 2 @ '':'' @ appendInt (int (Second t)) 2 @ fr"
  have f: "fraction fr = Some (ns, []) \<and> list_all plain_char fr"
  proof (cases "fr = []")
    case True
    with fr have "ns = 0" by blast
    with True show ?thesis by (simp add: fraction_Nil)
  next
    case False
    with fr obtain sep ds where d: "fr = sep # ds" "sep = CHR ''.'' \<or> sep = CHR '',''"
      "ds \<noteq> []" "list_all (\<lambda>c. CHR ''0'' \<le> c \<and> c \<le> CHR ''9'') ds"
      "ns = nanoseconds_of ds"
      by blast
    have "fraction (sep # ds) = Some (nanoseconds_of ds, [])"
      using d(2-4) by (rule fraction_value)
    moreover have "list_all plain_char (sep # ds)"
      using d(2,4) by (rule fraction_plain)
    ultimately show ?thesis unfolding d(1) d(5) by blast
  qed
  from f have f1: "fraction fr = Some (ns, [])" and p: "list_all plain_char fr" by blast+
  from Parse_accepts_Time [OF v hh f1, of k] p have
    parse: "Parse ?s = Some (t\<lparr>Nanosecond := ns\<rparr>)" and plain: "list_all plain_char ?s"
    by blast+
  from plain have u: "Unquote sc (Quote sc ?s) = Some ?s" by (rule Unquote_Quote)
  show ?thesis
    by (simp only: UnmarshalJSON_def u option.case parse)
qed

lemma Parse_shape_value:
  assumes "Parse v0 = Some t"
  shows "valid_Time t \<and>
    (\<exists>k hh fr.
       v0 = appendInt (Year t) 4 @ ''-'' @ appendInt (int (Month t)) 2 @ ''-'' @
            appendInt (int (Day t)) 2 @ replicate (Suc k) (CHR '' '') @ hh @ '':'' @
            appendInt (int (Minute t)) 2 @ '':'' @ appendInt (int (Second t)) 2 @ fr \<and>
       (hh = appendInt (int (Hour t)) 2 \<or> hh = appendInt (int (Hour t)) 1) \<and>
       (fr = [] \<and> Nanosecond t = 0 \<or>
        (\<exists>sep ds. fr = sep # ds \<and> (sep = CHR ''.'' \<or> sep = CHR '','') \<and> ds \<noteq> [] \<and>
           list_all (\<lambda>c. CHR ''0'' \<le> c \<and> c \<le> CHR ''9'') ds \<and>
           Nanosecond t = nanoseconds_of ds)))"
proof -
  from Parse_shape [OF assms] obtain k hh fr where
    v: "valid_Time t" and
    s: "v0 = appendInt (Year t) 4 @ ''-'' @ appendInt (int (Month t)) 2 @ ''-'' @
            appendInt (int (Day t)) 2 @ replicate (Suc k) (CHR '' '') @ hh @ '':'' @
            appendInt (int (Minute t)) 2 @ '':'' @ appendInt (int (Second t)) 2 @ fr" and
    hh: "hh = appendInt (int (Hour t)) 2 \<or> hh = appendInt (int (Hour t)) 1" and
    fr: "fr = [] \<and> Nanosecond t = 0 \<or>
        (\<exists>sep ds. fr = sep # ds \<and> (sep = CHR ''.'' \<or> sep = CHR '','') \<and> ds \<noteq> [] \<and>
           list_all (\<lambda>c. CHR ''0'' \<le> c \<and> c \<le> CHR ''9'') ds)"
    by blast
  have "fr = [] \<and> Nanosecond t = 0 \<or>
        (\<exists>sep ds. fr = sep # ds \<and> (sep = CHR ''.'' \<or> sep = CHR '','') \<and> ds \<noteq> [] \<and>
           list_all (\<lambda>c. CHR ''0'' \<le> c \<and> c \<le> CHR ''9'') ds \<and>
           Nanosecond t = nanoseconds_of ds)"
  proof (cases "fr = []")
    case True
    with fr show ?thesis by auto
  next
    case False
    with fr obtain sep ds where f: "fr = sep # ds" "sep = CHR ''.'' \<or> sep = CHR '',''"
      "ds \<noteq> []" "list_all (\<lambda>c. CHR ''0'' \<le> c \<and> c \<le> CHR ''9'') ds"
      by blast
    have "fraction fr = Some (nanoseconds_of ds, [])"
      unfolding f(1) using f(2-4) by (rule fraction_value)
    from Parse_accepts_Time [OF v hh this, of k] s assms
    have "Some t = Some (t\<lparr>Nanosecond := nanoseconds_of ds\<rparr>)" by simp
    then have "Nanosecond t = Nanosecond (t\<lparr>Nanosecond := nanoseconds_of ds\<rparr>)" by simp
    then have "Nanosecond t = nanoseconds_of ds" by simp
    with f False show ?thesis by blast
  qed
  with v s hh show ?thesis by blast
qed

text \<open>
  C5, where \<open>UnmarshalJSON\<close> departs from it: texts that deviate from the layout are
  decoded. The round trip holds: midnight of 2024-01-01 is encoded as
  \<open>"2024-01-01 00:00:00"\<close> and decoded back. But that text followed by \<open>.5\<close>, trailing
  characters, is decoded too, to that instant plus half a second; and so is a text with
  two blanks after the date, a one-digit hour and a comma with two digits after the
  seconds. \<open>time.Parse\<close> accepts a fractional second after the seconds although the
  layout has none, one digit for the hour, and any run of blanks for the blank of the
  layout.
\<close>

theorem UnmarshalJSON_accepts_deviations:
  "MarshalJSON strconv_sample (midnight 2024 1 1) =
     CHR 0x22 # ''2024-01-01 00:00:00'' @ [CHR 0x22] \<and>
   UnmarshalJSON strconv_sample (CHR 0x22 # ''2024-01-01 00:00:00'' @ [CHR 0x22]) =
     Inr (midnight 2024 1 1) \<and>
   UnmarshalJSON strconv_sample (CHR 0x22 # ''2024-01-01 00:00:00.5'' @ [CHR 0x22]) =
     Inr \<lparr>Year = 2024, Month = 1, Day = 1, Hour = 0, Minute = 0, Second = 0,
          Nanosecond = 500000000\<rparr> \<and>
   UnmarshalJSON strconv_sample (CHR 0x22 # ''2024-01-02  5:04:05,25'' @ [CHR 0x22]) =
     Inr \<lparr>Year = 2024, Month = 1, Day = 2, Hour = 5, Minute = 4, Second = 5,
          Nanosecond = 250000000\<rparr>"
  by (simp add: Format_def appendInt_def digits.simps digit_char_def midnight_def
      MarshalJSON_def UnmarshalJSON_def Unquote_def Quote_def plain_char_def strconv_sample_def
      Parse_def ensure_def isDigit_def getnum_def atoi_def digit_value_def
      cutspace_def fraction_def commaOrPeriod_def parseNanoseconds_def daysIn_def isLeap_def
      Let_def less_eq_char_def less_char_def)

text \<open>
  In general: for every calendar time \<open>t\<close> with its fields in range, a year from 0 to
  9999 and no fraction of a second, decoding the encoding of \<open>t\<close> gives \<open>t\<close>. The only
  error of decoding is \<open>ErrInvalidTimeFormat\<close>. Decoding succeeds only if the unquoted
  text is: the year in four digits, \<open>-\<close>, the month in two, \<open>-\<close>, the day in two, one
  or more blanks, the hour in two digits or in one, \<open>:\<close>, the minutes in two, \<open>:\<close>, the
  seconds in two, and then either nothing or a period or comma followed by one or
  more digits; the value decoded has its fields in range and the fraction of a second
  that those digits spell. Every other text fails. Conversely every text of that form
  whose fields are in range is decoded, to the time it spells, also when it is not the
  canonical text.
\<close>

theorem CustomTime_json_roundtrip:
  "(valid_Time t \<and> Nanosecond t = 0 \<longrightarrow> UnmarshalJSON sc (MarshalJSON sc t) = Inr t) \<and>
   (UnmarshalJSON sc j = Inl e \<longrightarrow> e = ErrInvalidTimeFormat) \<and>
   (UnmarshalJSON sc j = Inr t' \<longrightarrow>
      valid_Time t' \<and>
      (\<exists>unquoted k hh fr.
         Unquote sc j = Some unquoted \<and>
         unquoted = appendInt (Year t') 4 @ ''-'' @ appendInt (int (Month t')) 2 @ ''-'' @
                appendInt (int (Day t')) 2 @ replicate (Suc k) (CHR '' '') @ hh @ '':'' @
                appendInt (int (Minute t')) 2 @ '':'' @ appendInt (int (Second t')) 2 @ fr \<and>
         (hh = appendInt (int (Hour t')) 2 \<or> hh = appendInt (int (Hour t')) 1) \<and>
         (fr = [] \<and> Nanosecond t' = 0 \<or>
          (\<exists>sep ds. fr = sep # ds \<and> (sep = CHR ''.'' \<or> sep = CHR '','') \<and> ds \<noteq> [] \<and>
             list_all (\<lambda>c. CHR ''0'' \<le> c \<and> c \<le> CHR ''9'') ds \<and>
             Nanosecond t' = nanoseconds_of ds)))) \<and>
   (valid_Time t \<and>
    (h2 = appendInt (int (Hour t)) 2 \<or> h2 = appendInt (int (Hour t)) 1) \<and>
    (f2 = [] \<and> n2 = 0 \<or>
     (\<exists>sep ds. f2 = sep # ds \<and> (sep = CHR ''.'' \<or> sep = CHR '','') \<and> ds \<noteq> [] \<and>
        list_all (\<lambda>c. CHR ''0'' \<le> c \<and> c \<le> CHR ''9'') ds \<and> n2 = nanoseconds_of ds)) \<longrightarrow>
      UnmarshalJSON sc (Quote sc
          (appendInt (Year t) 4 @ ''-'' @ appendInt (int (Month t)) 2 @ ''-'' @
           appendInt (int (Day t)) 2 @ replicate (Suc k2) (CHR '' '') @ h2 @ '':'' @
           appendInt (int (Minute t)) 2 @ '':'' @ appendInt (int (Second t)) 2 @ f2)) =
        Inr (t\<lparr>Nanosecond := n2\<rparr>))"
  (is "?R \<and> ?E \<and> ?S \<and> ?A")
proof -
  have 1: ?R
    using roundtrip by blast
  have 2: ?E
    using UnmarshalJSON_error by blast
  have 3: ?S
  proof
    assume "UnmarshalJSON sc j = Inr t'"
    from UnmarshalJSON_Inr [OF this] obtain unquoted where
      u: "Unquote sc j = Some unquoted" and p: "Parse unquoted = Some t'" by blast
    from Parse_shape_value [OF p] u show "valid_Time t' \<and>
      (\<exists>unquoted k hh fr.
         Unquote sc j = Some unquoted \<and>
         unquoted = appendInt (Year t') 4 @ ''-'' @ appendInt (int (Month t')) 2 @ ''-'' @
                appendInt (int (Day t')) 2 @ replicate (Suc k) (CHR '' '') @ hh @ '':'' @
                appendInt (int (Minute t')) 2 @ '':'' @ appendInt (int (Second t')) 2 @ fr \<and>
         (hh = appendInt (int (Hour t')) 2 \<or> hh = appendInt (int (Hour t')) 1) \<and>
         (fr = [] \<and> Nanosecond t' = 0 \<or>
          (\<exists>sep ds. fr = sep # ds \<and> (sep = CHR ''.'' \<or> sep = CHR '','') \<and> ds \<noteq> [] \<and>
             list_all (\<lambda>c. CHR ''0'' \<le> c \<and> c \<le> CHR ''9'') ds \<and>
             Nanosecond t' = nanoseconds_of ds)))"
      by blast
  qed
  have 4: ?A
    using UnmarshalJSON_accepts [of t h2 f2 n2 sc k2] by blast
  from 1 2 3 4 show ?thesis by blast
qed

theorem CustomTime_json_roundtrip_witness:
  "valid_Time (midnight 2024 1 2) \<and> Nanosecond (midnight 2024 1 2) = 0 \<and>
   MarshalJSON strconv_sample (midnight 2024 1 2) =
     CHR 0x22 # ''2024-01-02 00:00:00'' @ [CHR 0x22] \<and>
   UnmarshalJSON strconv_sample (MarshalJSON strconv_sample (midnight 2024 1 2)) =
     Inr (midnight 2024 1 2) \<and>
   UnmarshalJSON strconv_sample ''null'' = Inl ErrInvalidTimeFormat \<and>
   UnmarshalJSON strconv_sample (CHR 0x22 # ''2024-01-02T00:00:00'' @ [CHR 0x22]) =
     Inl ErrInvalidTimeFormat \<and>
   UnmarshalJSON strconv_sample (CHR 0x22 # ''2024-01-02  5:04:05,25'' @ [CHR 0x22]) =
     Inr \<lparr>Year = 2024, Month = 1, Day = 2, Hour = 5, Minute = 4, Second = 5,
          Nanosecond = 250000000\<rparr> \<and>
   nanoseconds_of ''25'' = 250000000"
  using
    CustomTime_json_roundtrip [of "midnight 2024 1 2" strconv_sample "''null''"
      ErrInvalidTimeFormat]
    CustomTime_json_roundtrip [of "midnight 2024 1 2" strconv_sample
      "CHR 0x22 # ''2024-01-02T00:00:00'' @ [CHR 0x22]" ErrInvalidTimeFormat]
    CustomTime_json_roundtrip [of "midnight 2024 1 2" strconv_sample
      "CHR 0x22 # ''2024-01-02  5:04:05,25'' @ [CHR 0x22]" ErrInvalidTimeFormat
      "\<lparr>Year = 2024, Month = 1, Day = 2, Hour = 5, Minute = 4, Second = 5,
        Nanosecond = 250000000\<rparr>"]
  by (simp add: Format_def appendInt_def digits.simps digit_char_def midnight_def
      valid_Time_def MarshalJSON_def
      UnmarshalJSON_def Unquote_def Quote_def plain_char_def strconv_sample_def
      Parse_def ensure_def isDigit_def getnum_def atoi_def digit_value_def
      cutspace_def fraction_def commaOrPeriod_def parseNanoseconds_def daysIn_def isLeap_def
      Let_def less_eq_char_def less_char_def nanoseconds_of_def decimal_def)

end
